theory Spec2Isabelle
  imports Complex_Main
begin

section \<open>The GTP connection of the NoGo player (gtp\_connection.py)\<close>

text \<open>
  The module holds one class, \<^verbatim>\<open>GtpConnection\<close>: a command dispatcher
  (\<^verbatim>\<open>get_cmd\<close>), one handler per GTP command, and the time-bounded
  alpha-beta search (\<^verbatim>\<open>alphabeta\<close>) behind \<^verbatim>\<open>solve\<close> and
  \<^verbatim>\<open>genmove\<close>. The classes \<^verbatim>\<open>GoBoard\<close> (board.py) and
  \<^verbatim>\<open>GoBoardUtil\<close> (board\_util.py) are imported by the module and are not part of
  it: their methods are the fields of the record \<open>api\<close> below, so each statement holds for
  every board implementation, under the assumptions it names, and the concrete board
  \<open>toy\<close> only serves to run the definitions.
\<close>

subsection \<open>Python values, exceptions and strings\<close>

text \<open>
  An exception is a value. Each constructor carries the text that \<^verbatim>\<open>str(e)\<close> yields.
  \<^verbatim>\<open>SystemExit\<close> is raised by \<^verbatim>\<open>exit()\<close>; it is the only one that
  \<^verbatim>\<open>except Exception\<close> does not catch, a bare \<^verbatim>\<open>except:\<close> catches all.
\<close>

datatype exn =
    IndexError string
  | ValueError string
  | TypeError string
  | RuntimeError string
  | UnboundLocalError string
  | SystemExit

fun str_exn :: "exn \<Rightarrow> string" where
  "str_exn (IndexError m) = m"
| "str_exn (ValueError m) = m"
| "str_exn (TypeError m) = m"
| "str_exn (RuntimeError m) = m"
| "str_exn (UnboundLocalError m) = m"
| "str_exn SystemExit = []"

fun is_Exception :: "exn \<Rightarrow> bool" where
  "is_Exception SystemExit = False"
| "is_Exception e = True"

text \<open>
  The position that a Python index \<open>i\<close> denotes in a sequence of \<open>len\<close> items:
  a negative index counts from the end, anything outside is no position.
\<close>

definition index_of :: "nat \<Rightarrow> int \<Rightarrow> nat option" where
  "index_of len i =
     (if 0 \<le> i \<and> i < int len then Some (nat i)
      else if i < 0 \<and> - int len \<le> i then Some (nat (int len + i))
      else None)"

text \<open>\<^verbatim>\<open>xs[i]\<close> and \<^verbatim>\<open>xs[i] = v\<close>; both raise outside the sequence.\<close>

definition getitem :: "'a list \<Rightarrow> int \<Rightarrow> exn + 'a" where
  "getitem xs i =
     (case index_of (length xs) i of
        None \<Rightarrow> Inl (IndexError ''list index out of range'')
      | Some k \<Rightarrow> Inr (xs ! k))"

definition setitem :: "'a list \<Rightarrow> int \<Rightarrow> 'a \<Rightarrow> exn + 'a list" where
  "setitem xs i v =
     (case index_of (length xs) i of
        None \<Rightarrow> Inl (IndexError ''index out of bounds'')
      | Some k \<Rightarrow> Inr (xs[k := v]))"

text \<open>
  Strings are byte strings. \<open>split_where P\<close> cuts a string at every character that
  satisfies \<open>P\<close> and keeps the empty pieces, so the result is never the empty list:
  \<^verbatim>\<open>s.split(' ')\<close> is \<open>split_where (\<lambda>c. c = CHR '' '')\<close>, and
  \<^verbatim>\<open>''.split(' ')\<close> is \<^verbatim>\<open>['']\<close>.
\<close>

fun split_where :: "(char \<Rightarrow> bool) \<Rightarrow> string \<Rightarrow> string list" where
  "split_where P [] = [[]]"
| "split_where P (c # cs) =
     (if P c then [] # split_where P cs
      else (case split_where P cs of
              [] \<Rightarrow> [[c]]
            | w # ws \<Rightarrow> (c # w) # ws))"

definition split_space :: "string \<Rightarrow> string list" where
  "split_space s = split_where (\<lambda>c. c = CHR '' '') s"

definition is_space :: "char \<Rightarrow> bool" where
  "is_space c \<longleftrightarrow> (of_char c :: nat) \<in> {9, 10, 11, 12, 13, 28, 29, 30, 31, 32}"

definition is_digit :: "char \<Rightarrow> bool" where
  "is_digit c \<longleftrightarrow> 48 \<le> (of_char c :: nat) \<and> (of_char c :: nat) \<le> 57"

text \<open>\<^verbatim>\<open>s.split()\<close>: cut at white space, drop the empty pieces.\<close>

definition split_ws :: "string \<Rightarrow> string list" where
  "split_ws s = filter (\<lambda>w. w \<noteq> []) (split_where is_space s)"

definition lstrip :: "string \<Rightarrow> string" where
  "lstrip s = dropWhile is_space s"

text \<open>\<^verbatim>\<open>s.strip(chars)\<close>.\<close>

definition strip_chars :: "string \<Rightarrow> string \<Rightarrow> string" where
  "strip_chars chars s =
     rev (dropWhile (\<lambda>c. c \<in> set chars) (rev (dropWhile (\<lambda>c. c \<in> set chars) s)))"

definition lower_char :: "char \<Rightarrow> char" where
  "lower_char c =
     (if 65 \<le> (of_char c :: nat) \<and> (of_char c :: nat) \<le> 90
      then char_of ((of_char c :: nat) + 32) else c)"

definition lower :: "string \<Rightarrow> string" where
  "lower s = map lower_char s"

text \<open>\<^verbatim>\<open>sep.join(xs)\<close>.\<close>

fun join :: "string \<Rightarrow> string list \<Rightarrow> string" where
  "join sep [] = []"
| "join sep [x] = x"
| "join sep (x # y # ys) = x @ sep @ join sep (y # ys)"

subsection \<open>The board and its collaborators\<close>

text \<open>
  The colour codes of board\_util.py, as the docstrings of \<^verbatim>\<open>play_cmd\<close> and
  \<^verbatim>\<open>genmove_cmd\<close> give them (\<^verbatim>\<open>Black --> 1 White --> 2\<close>) and the table
  \<^verbatim>\<open>stone = ['', 'b', 'w']\<close> of \<^verbatim>\<open>solve_cmd\<close> indexes them.
\<close>

definition EMPTY :: int where "EMPTY = 0"
definition BLACK :: int where "BLACK = 1"
definition WHITE :: int where "WHITE = 2"

text \<open>
  A \<^verbatim>\<open>GoBoard\<close> object. The module reads and writes three of its attributes,
  \<^verbatim>\<open>board\<close> (the array of points), \<^verbatim>\<open>to_play\<close> and \<^verbatim>\<open>size\<close>;
  \<open>rest\<close> stands for whatever else the object holds.
\<close>

record 'z GoBoard =
  board :: "int list"
  to_play :: int
  bsize :: int
  rest :: 'z

text \<open>
  The methods of \<^verbatim>\<open>GoBoard\<close> and \<^verbatim>\<open>GoBoardUtil\<close> that the module calls, the
  engine's identity, the clock (\<open>process_time k\<close> is what the \<open>k\<close>-th call of
  \<^verbatim>\<open>time.process_time()\<close> returns), the subtraction of floating point numbers
  (\<open>float_sub x y\<close> is the double that \<^verbatim>\<open>x - y\<close> yields; a double is taken as the
  real number it denotes, and nothing is assumed of the rounding) and the built-in parsers
  \<^verbatim>\<open>int\<close> and \<^verbatim>\<open>float\<close> on strings. A method that can raise returns a sum; \<open>move\<close> returns
  the board it leaves behind in either case.
\<close>

record 'z api =
  color_to_int :: "string \<Rightarrow> exn + int"
  opponent :: "int \<Rightarrow> int"
  generate_legal_moves :: "'z GoBoard \<Rightarrow> int \<Rightarrow> exn + string"
  generate_random_move :: "'z GoBoard \<Rightarrow> int \<Rightarrow> nat \<Rightarrow> int"
  move_to_coord :: "string \<Rightarrow> int \<Rightarrow> exn + (int \<times> int) option"
  format_point :: "int \<times> int \<Rightarrow> string"
  coord_to_point :: "'z GoBoard \<Rightarrow> int \<Rightarrow> int \<Rightarrow> int"
  point_to_coord :: "'z GoBoard \<Rightarrow> int \<Rightarrow> int \<times> int"
  move :: "'z GoBoard \<Rightarrow> int \<Rightarrow> int \<Rightarrow> (exn + bool) \<times> 'z GoBoard"
  check_legal :: "'z GoBoard \<Rightarrow> int \<Rightarrow> int \<Rightarrow> bool"
  get_winner :: "'z GoBoard \<Rightarrow> int option"
  staticallyEvaluateForToPlay :: "'z GoBoard \<Rightarrow> int"
  reset :: "'z GoBoard \<Rightarrow> int \<Rightarrow> 'z GoBoard"
  final_score :: "'z GoBoard \<Rightarrow> real \<Rightarrow> string"
  get_twoD_board :: "'z GoBoard \<Rightarrow> string"
  engine_name :: string
  engine_version :: string
  process_time :: "nat \<Rightarrow> real"
  float_sub :: "real \<Rightarrow> real \<Rightarrow> real"
  int_of_str :: "string \<Rightarrow> exn + int"
  float_of_str :: "string \<Rightarrow> exn + real"

subsection \<open>The connection object\<close>

text \<open>
  The attributes of \<^verbatim>\<open>GtpConnection\<close> that the handlers change. \<open>out\<close> is the
  list of strings written to the standard output so far, \<open>clock\<close> counts the calls of
  \<^verbatim>\<open>time.process_time()\<close> and \<open>draws\<close> the calls of the random move
  generator. The debug channel (standard error) is left out.
\<close>

record 'z conn =
  komi :: real
  gboard :: "'z GoBoard"
  notdone :: bool
  timelimit :: int
  starttime :: real
  winMoves :: "string list"
  genCall :: bool
  out :: "string list"
  clock :: nat
  draws :: nat

definition newline :: string where
  "newline = [CHR 0x0A]"

definition error :: "string \<Rightarrow> 'z conn \<Rightarrow> 'z conn" where
  "error error_msg s = s\<lparr>out := out s @ [''? '' @ error_msg @ newline @ newline]\<rparr>"

definition respond :: "string \<Rightarrow> 'z conn \<Rightarrow> 'z conn" where
  "respond response s = s\<lparr>out := out s @ [''= '' @ response @ newline @ newline]\<rparr>"

subsection \<open>The alpha-beta search\<close>

text \<open>
  \<^verbatim>\<open>alphabeta\<close> returns the string \<^verbatim>\<open>'a'\<close> to abort and an integer otherwise.
  The caller applies \<^verbatim>\<open>int\<close> to the result, which raises \<^verbatim>\<open>ValueError\<close> on
  \<^verbatim>\<open>'a'\<close>.
\<close>

datatype ab_value = Abort | Val int

fun py_int :: "ab_value \<Rightarrow> exn + int" where
  "py_int Abort = Inl (ValueError ''invalid literal for int() with base 10: 'a' '')"
| "py_int (Val v) = Inr v"

text \<open>
  The two statements that take a move back:
  \<^verbatim>\<open>state.board[point] = EMPTY; state.to_play = GoBoardUtil.opponent(state.to_play)\<close>.
\<close>

definition undo :: "'z api \<Rightarrow> int \<Rightarrow> 'z conn \<Rightarrow> exn + 'z conn" where
  "undo ops point s =
     (case setitem (board (gboard s)) point EMPTY of
        Inl e \<Rightarrow> Inl e
      | Inr arr \<Rightarrow>
          Inr (s\<lparr>gboard := (gboard s)\<lparr>board := arr,
                                       to_play := opponent ops (to_play (gboard s))\<rparr>\<rparr>))"

text \<open>
  \<open>alphabeta ops n s alpha beta d\<close> is the method \<^verbatim>\<open>alphabeta(state, alpha, beta, d)\<close>,
  where \<^verbatim>\<open>state\<close> is the board of the connection itself (\<^verbatim>\<open>state = self.board\<close>
  in \<^verbatim>\<open>solve_cmd\<close>), so the search works on \<open>gboard s\<close>. The number \<open>n\<close> bounds
  the depth of the recursion: the result is \<open>None\<close> when the search needs more than
  \<open>n\<close> nested calls. Otherwise it is the value returned or the exception raised, and the
  connection the call leaves behind. \<open>for_moves\<close> is the \<^verbatim>\<open>for m in ...\<close> loop
  of one call, on the moves that remain. The duration is the floating point difference
  \<open>float_sub\<close> of the clock reading and the start time, compared with the integer
  limit as Python compares a float with an int, by value. The recursion limit of the
  interpreter is not modelled.
\<close>

fun alphabeta ::
    "'z api \<Rightarrow> nat \<Rightarrow> 'z conn \<Rightarrow> int \<Rightarrow> int \<Rightarrow> int \<Rightarrow> ((exn + ab_value) \<times> 'z conn) option"
  and for_moves ::
    "'z api \<Rightarrow> nat \<Rightarrow> string list \<Rightarrow> 'z conn \<Rightarrow> int \<Rightarrow> int \<Rightarrow> int
       \<Rightarrow> ((exn + ab_value) \<times> 'z conn) option"
where
  "alphabeta ops 0 s alpha beta d = None"
| "alphabeta ops (Suc n) s alpha beta d =
     (let duration = float_sub ops (process_time ops (clock s)) (starttime s);
          s1 = s\<lparr>clock := Suc (clock s)\<rparr>
      in if notdone s1 \<or> winMoves s1 \<noteq> [] then Some (Inr Abort, s1)
         else if duration > real_of_int (timelimit s1)
           then Some (Inr Abort, s1\<lparr>notdone := True\<rparr>)
         else if get_winner ops (gboard s1) \<noteq> None
           then Some (Inr (Val (staticallyEvaluateForToPlay ops (gboard s1))), s1)
         else (case generate_legal_moves ops (gboard s1) (to_play (gboard s1)) of
                 Inl e \<Rightarrow> Some (Inl e, s1)
               | Inr ms \<Rightarrow> for_moves ops n (split_space ms) s1 alpha beta d))"
| "for_moves ops n [] s alpha beta d = Some (Inr (Val alpha), s)"
| "for_moves ops n (m # ms) s alpha beta d =
     (case move_to_coord ops m (bsize (gboard s)) of
        Inl e \<Rightarrow> Some (Inl e, s)
      | Inr None \<Rightarrow> Some (Inl (TypeError ''NoneType object is not subscriptable''), s)
      | Inr (Some (row, col)) \<Rightarrow>
          (let point = coord_to_point ops (gboard s) row col
           in case move ops (gboard s) point (to_play (gboard s)) of
                (Inl e, b) \<Rightarrow> Some (Inl e, s\<lparr>gboard := b\<rparr>)
              | (Inr ok, b) \<Rightarrow>
                  (case alphabeta ops n (s\<lparr>gboard := b\<rparr>) (- beta) (- alpha) (d + 1) of
                     None \<Rightarrow> None
                   | Some (r, s2) \<Rightarrow>
                       (case (case r of Inl e \<Rightarrow> Inl e | Inr v \<Rightarrow> py_int v) of
                          Inl e \<Rightarrow>
                            (case undo ops point s2 of
                               Inl e' \<Rightarrow> Some (Inl e', s2)
                             | Inr s3 \<Rightarrow> Some (Inr Abort, s3))
                        | Inr v \<Rightarrow>
                            (case undo ops point s2 of
                               Inl e' \<Rightarrow> Some (Inl e', s2)
                             | Inr s3 \<Rightarrow>
                                 (let val = - v
                                  in if val > alpha \<and> d = 0 \<and> val \<ge> 0
                                       then Some (Inr Abort, s3\<lparr>winMoves := winMoves s3 @ [m]\<rparr>)
                                     else if notdone s3 \<or> winMoves s3 \<noteq> []
                                       then Some (Inr Abort, s3)
                                     else if val \<ge> beta then Some (Inr (Val beta), s3)
                                     else for_moves ops n ms s3
                                            (if val > alpha then val else alpha) beta d))))))"

text \<open>The table \<^verbatim>\<open>stone = ['', 'b', 'w']\<close> of \<^verbatim>\<open>solve_cmd\<close>.\<close>

definition stone :: "string list" where
  "stone = ['''', ''b'', ''w'']"

text \<open>
  \<^verbatim>\<open>solve_cmd\<close>. The search starts from a cleared scratch state and a fresh reading of
  the clock; a response is written only when \<^verbatim>\<open>genCall\<close> is unset.
\<close>

definition solve_cmd ::
    "'z api \<Rightarrow> nat \<Rightarrow> string list \<Rightarrow> 'z conn \<Rightarrow> ((exn + unit) \<times> 'z conn) option" where
  "solve_cmd ops n args s =
     (let s0 = s\<lparr>winMoves := [], notdone := False\<rparr>;
          s1 = s0\<lparr>starttime := process_time ops (clock s0), clock := Suc (clock s0)\<rparr>
      in case alphabeta ops n s1 (- 100000) 100000 0 of
           None \<Rightarrow> None
         | Some (Inl e, s2) \<Rightarrow> Some (Inl e, s2)
         | Some (Inr win, s2) \<Rightarrow>
             (if \<not> genCall s2 then
                (if winMoves s2 \<noteq> [] then
                   (case getitem stone (to_play (gboard s2)) of
                      Inl e \<Rightarrow> Some (Inl e, s2)
                    | Inr st \<Rightarrow> Some (Inr (), respond (st @ '' '' @ hd (winMoves s2)) s2))
                 else if notdone s2 then Some (Inr (), respond ''unknown'' s2)
                 else
                   (case getitem stone (opponent ops (to_play (gboard s2))) of
                      Inl e \<Rightarrow> Some (Inl e, s2)
                    | Inr st \<Rightarrow> Some (Inr (), respond st s2)))
              else Some (Inr (), s2)))"

subsection \<open>The command handlers\<close>

text \<open>
  A handler takes the argument list and the connection and returns \<open>Inr ()\<close> when it
  returns, \<open>Inl e\<close> when it raises \<open>e\<close>, with the connection it leaves behind. The two
  handlers that search carry the depth bound of the search.
\<close>

definition protocol_version_cmd :: "string list \<Rightarrow> 'z conn \<Rightarrow> (exn + unit) \<times> 'z conn" where
  "protocol_version_cmd args s = (Inr (), respond ''2'' s)"

definition quit_cmd :: "string list \<Rightarrow> 'z conn \<Rightarrow> (exn + unit) \<times> 'z conn" where
  "quit_cmd args s = (Inl SystemExit, respond [] s)"

definition name_cmd :: "'z api \<Rightarrow> string list \<Rightarrow> 'z conn \<Rightarrow> (exn + unit) \<times> 'z conn" where
  "name_cmd ops args s = (Inr (), respond (engine_name ops) s)"

definition version_cmd :: "'z api \<Rightarrow> string list \<Rightarrow> 'z conn \<Rightarrow> (exn + unit) \<times> 'z conn" where
  "version_cmd ops args s = (Inr (), respond (engine_version ops) s)"

definition clear_board_cmd ::
    "'z api \<Rightarrow> string list \<Rightarrow> 'z conn \<Rightarrow> (exn + unit) \<times> 'z conn" where
  "clear_board_cmd ops args s =
     (Inr (), respond [] (s\<lparr>gboard := reset ops (gboard s) (bsize (gboard s))\<rparr>))"

definition boardsize_cmd ::
    "'z api \<Rightarrow> string list \<Rightarrow> 'z conn \<Rightarrow> (exn + unit) \<times> 'z conn" where
  "boardsize_cmd ops args s =
     (case getitem args 0 of
        Inl e \<Rightarrow> (Inl e, s)
      | Inr a \<Rightarrow>
          (case int_of_str ops a of
             Inl e \<Rightarrow> (Inl e, s)
           | Inr k \<Rightarrow> (Inr (), respond [] (s\<lparr>gboard := reset ops (gboard s) k\<rparr>))))"

definition showboard_cmd ::
    "'z api \<Rightarrow> string list \<Rightarrow> 'z conn \<Rightarrow> (exn + unit) \<times> 'z conn" where
  "showboard_cmd ops args s = (Inr (), respond (newline @ get_twoD_board ops (gboard s)) s)"

definition komi_cmd :: "'z api \<Rightarrow> string list \<Rightarrow> 'z conn \<Rightarrow> (exn + unit) \<times> 'z conn" where
  "komi_cmd ops args s =
     (case getitem args 0 of
        Inl e \<Rightarrow> (Inl e, s)
      | Inr a \<Rightarrow>
          (case float_of_str ops a of
             Inl e \<Rightarrow> (Inl e, s)
           | Inr k \<Rightarrow> (Inr (), respond [] (s\<lparr>komi := k\<rparr>))))"

text \<open>The keys of the dictionary \<^verbatim>\<open>self.commands\<close>, in the order of insertion.\<close>

definition command_names :: "string list" where
  "command_names =
     [''protocol_version'', ''quit'', ''name'', ''boardsize'', ''showboard'',
      ''clear_board'', ''komi'', ''version'', ''known_command'', ''set_free_handicap'',
      ''genmove'', ''list_commands'', ''play'', ''final_score'', ''legal_moves'',
      ''timelimit'', ''solve'']"

definition known_command_cmd :: "string list \<Rightarrow> 'z conn \<Rightarrow> (exn + unit) \<times> 'z conn" where
  "known_command_cmd args s =
     (case getitem args 0 of
        Inl e \<Rightarrow> (Inl e, s)
      | Inr a \<Rightarrow>
          (if a \<in> set command_names then (Inr (), respond ''true'' s)
           else (Inr (), respond ''false'' s)))"

definition list_commands_cmd :: "string list \<Rightarrow> 'z conn \<Rightarrow> (exn + unit) \<times> 'z conn" where
  "list_commands_cmd args s = (Inr (), respond (join '' '' command_names) s)"

text \<open>The loop of \<^verbatim>\<open>set_free_handicap\<close> over the points given.\<close>

fun handicap_points :: "'z api \<Rightarrow> string list \<Rightarrow> 'z conn \<Rightarrow> (exn + unit) \<times> 'z conn" where
  "handicap_points ops [] s = (Inr (), s)"
| "handicap_points ops (p # ps) s =
     (case move_to_coord ops p (bsize (gboard s)) of
        Inl e \<Rightarrow> (Inl e, s)
      | Inr None \<Rightarrow> (Inl (TypeError ''argument after * must be an iterable, not NoneType''), s)
      | Inr (Some (row, col)) \<Rightarrow>
          (case move ops (gboard s) (coord_to_point ops (gboard s) row col) BLACK of
             (Inl e, b) \<Rightarrow> (Inl e, s\<lparr>gboard := b\<rparr>)
           | (Inr ok, b) \<Rightarrow> handicap_points ops ps (s\<lparr>gboard := b\<rparr>)))"

definition set_free_handicap ::
    "'z api \<Rightarrow> string list \<Rightarrow> 'z conn \<Rightarrow> (exn + unit) \<times> 'z conn" where
  "set_free_handicap ops args s =
     (case handicap_points ops args (s\<lparr>gboard := reset ops (gboard s) (bsize (gboard s))\<rparr>) of
        (Inl e, s') \<Rightarrow> (Inl e, s')
      | (Inr u, s') \<Rightarrow> (Inr (), respond [] s'))"

text \<open>
  \<^verbatim>\<open>legal_moves_cmd\<close>: the whole body stands in a \<^verbatim>\<open>try\<close> whose handler
  answers through \<^verbatim>\<open>respond\<close>.
\<close>

definition legal_moves_cmd ::
    "'z api \<Rightarrow> string list \<Rightarrow> 'z conn \<Rightarrow> (exn + unit) \<times> 'z conn" where
  "legal_moves_cmd ops args s =
     (let handler = (\<lambda>e. if is_Exception e
                           then (Inr (), respond (''Error: '' @ str_exn e) s)
                           else (Inl e, s))
      in case getitem args 0 of
           Inl e \<Rightarrow> handler e
         | Inr a \<Rightarrow>
             (let board_color = lower a
              in case color_to_int ops board_color of
                   Inl e \<Rightarrow> handler e
                 | Inr color \<Rightarrow>
                     (case generate_legal_moves ops (gboard s) color of
                        Inl e \<Rightarrow> handler e
                      | Inr moves \<Rightarrow> (Inr (), respond moves s))))"

text \<open>
  \<^verbatim>\<open>play_cmd\<close>. The handler of its \<^verbatim>\<open>try\<close> formats \<^verbatim>\<open>board_color\<close> and
  \<^verbatim>\<open>board_move\<close>, which are unbound when reading the arguments failed. A move that
  decodes to nothing, or that \<^verbatim>\<open>board.move\<close> answers with \<^verbatim>\<open>False\<close>, ends the
  handler with no response at all.
\<close>

definition play_cmd :: "'z api \<Rightarrow> string list \<Rightarrow> 'z conn \<Rightarrow> (exn + unit) \<times> 'z conn" where
  "play_cmd ops args s =
     (case getitem args 0 of
        Inl e \<Rightarrow>
          (if is_Exception e
           then (Inl (UnboundLocalError ''local variable 'board_color' referenced before assignment''), s)
           else (Inl e, s))
      | Inr a \<Rightarrow>
          (let board_color = lower a
           in case getitem args 1 of
                Inl e \<Rightarrow>
                  (if is_Exception e
                   then (Inl (UnboundLocalError ''local variable 'board_move' referenced before assignment''), s)
                   else (Inl e, s))
              | Inr board_move \<Rightarrow>
                  (let handler = (\<lambda>e s'. if is_Exception e
                         then (Inr (), respond (''illegal move: '' @ board_color @ '' '' @
                                                   board_move @ '' '' @ str_exn e) s')
                         else (Inl e, s'))
                   in case color_to_int ops board_color of
                        Inl e \<Rightarrow> handler e s
                      | Inr color \<Rightarrow>
                          (case move_to_coord ops board_move (bsize (gboard s)) of
                             Inl e \<Rightarrow> handler e s
                           | Inr None \<Rightarrow> (Inr (), s)
                           | Inr (Some (row, col)) \<Rightarrow>
                               (case move ops (gboard s)
                                       (coord_to_point ops (gboard s) row col) color of
                                  (Inl e, b) \<Rightarrow> handler e (s\<lparr>gboard := b\<rparr>)
                                | (Inr ok, b) \<Rightarrow>
                                    (if \<not> ok then (Inr (), s\<lparr>gboard := b\<rparr>)
                                     else (Inr (), respond [] (s\<lparr>gboard := b\<rparr>))))))))"

definition final_score_cmd ::
    "'z api \<Rightarrow> string list \<Rightarrow> 'z conn \<Rightarrow> (exn + unit) \<times> 'z conn" where
  "final_score_cmd ops args s = (Inr (), respond (final_score ops (gboard s) (komi s)) s)"

definition timelimit_cmd ::
    "'z api \<Rightarrow> string list \<Rightarrow> 'z conn \<Rightarrow> (exn + unit) \<times> 'z conn" where
  "timelimit_cmd ops args s =
     (case getitem args 0 of
        Inl e \<Rightarrow> (Inl e, s)
      | Inr a \<Rightarrow>
          (case int_of_str ops a of
             Inl e \<Rightarrow> (Inl e, s)
           | Inr k \<Rightarrow> (Inr (), respond [] (s\<lparr>timelimit := k\<rparr>))))"

text \<open>
  The move \<^verbatim>\<open>genmove_cmd\<close> settles on: the first winning move of the search when
  there is one, a random legal move otherwise, taken through the move strings and back
  to a point.
\<close>

definition chosen_move :: "'z api \<Rightarrow> int \<Rightarrow> 'z conn \<Rightarrow> (exn + int) \<times> 'z conn" where
  "chosen_move ops color s =
     (if winMoves s \<noteq> [] then
        (case move_to_coord ops (hd (winMoves s)) (bsize (gboard s)) of
           Inl e \<Rightarrow> (Inl e, s)
         | Inr None \<Rightarrow> (Inl (TypeError ''cannot unpack non-iterable NoneType object''), s)
         | Inr (Some (row, col)) \<Rightarrow> (Inr (coord_to_point ops (gboard s) row col), s))
      else
        (let mv = generate_random_move ops (gboard s) color (draws s);
             s' = s\<lparr>draws := Suc (draws s)\<rparr>;
             txt = format_point ops (point_to_coord ops (gboard s') mv)
         in case move_to_coord ops txt (bsize (gboard s')) of
              Inl e \<Rightarrow> (Inl e, s')
            | Inr None \<Rightarrow> (Inl (TypeError ''cannot unpack non-iterable NoneType object''), s')
            | Inr (Some (row, col)) \<Rightarrow> (Inr (coord_to_point ops (gboard s') row col), s')))"

text \<open>
  \<^verbatim>\<open>genmove_cmd\<close>. Its whole body stands in a \<^verbatim>\<open>try\<close>, so the
  \<^verbatim>\<open>RuntimeError\<close> it raises on an illegal move reaches its own handler, as does
  whatever \<^verbatim>\<open>solve_cmd\<close> raises.
\<close>

definition genmove_cmd ::
    "'z api \<Rightarrow> nat \<Rightarrow> string list \<Rightarrow> 'z conn \<Rightarrow> ((exn + unit) \<times> 'z conn) option" where
  "genmove_cmd ops n args s =
     (let handler = (\<lambda>e s'. if is_Exception e
                             then Some (Inr (), respond (''Error: '' @ str_exn e) s')
                             else Some (Inl e, s'));
          s1 = s\<lparr>notdone := False\<rparr>
      in case getitem args 0 of
           Inl e \<Rightarrow> handler e s1
         | Inr a \<Rightarrow>
             (case color_to_int ops (lower a) of
                Inl e \<Rightarrow> handler e s1
              | Inr color \<Rightarrow>
                  (if get_winner ops (gboard s1) \<noteq> None
                   then Some (Inr (), respond ''resign'' s1)
                   else
                     (let s2 = s1\<lparr>winMoves := [], genCall := True\<rparr>;
                          s3 = s2\<lparr>gboard := (gboard s2)
                                  \<lparr>to_play := (if a = ''b'' then BLACK else WHITE)\<rparr>\<rparr>
                      in case solve_cmd ops n args s3 of
                           None \<Rightarrow> None
                         | Some (Inl e, s4) \<Rightarrow> handler e s4
                         | Some (Inr u, s4) \<Rightarrow>
                             (case chosen_move ops color (s4\<lparr>genCall := False\<rparr>) of
                                (Inl e, s5) \<Rightarrow> handler e s5
                              | (Inr mv, s5) \<Rightarrow>
                                  (if \<not> check_legal ops (gboard s5) mv color then
                                     handler (RuntimeError ''Illegal move given by engine'')
                                       (respond (''Illegal move: '' @
                                          format_point ops (point_to_coord ops (gboard s5) mv)) s5)
                                   else
                                     (case move ops (gboard s5) mv color of
                                        (Inl e, b) \<Rightarrow> handler e (s5\<lparr>gboard := b\<rparr>)
                                      | (Inr ok, b) \<Rightarrow>
                                          Some (Inr (),
                                            respond (format_point ops (point_to_coord ops b mv))
                                              (s5\<lparr>gboard := b\<rparr>)))))))))"

subsection \<open>The dispatcher\<close>

text \<open>The dictionary \<^verbatim>\<open>self.argmap\<close>: required number of arguments and usage text.\<close>

definition argmap :: "(string \<times> nat \<times> string) list" where
  "argmap =
     [(''boardsize'', 1, ''Usage: boardsize INT''),
      (''komi'', 1, ''Usage: komi FLOAT''),
      (''known_command'', 1, ''Usage: known_command CMD_NAME''),
      (''set_free_handicap'', 1, ''Usage: set_free_handicap MOVE (e.g. A4)''),
      (''genmove'', 1, ''Usage: genmove {w, b}''),
      (''play'', 2, ''Usage: play {b, w} MOVE''),
      (''legal_moves'', 1, ''Usage: legal_moves {w, b}''),
      (''timelimit'', 1, ''Usage: timelimit seconds (1 <= seconds <= 100)'')]"

definition arg_error :: "string \<Rightarrow> nat \<Rightarrow> 'z conn \<Rightarrow> bool \<times> 'z conn" where
  "arg_error cmd argnum s =
     (case map_of argmap cmd of
        Some (k, usage) \<Rightarrow> if k > argnum then (True, error usage s) else (False, s)
      | None \<Rightarrow> (False, s))"

text \<open>The dictionary \<^verbatim>\<open>self.commands\<close>.\<close>

definition commands ::
    "'z api \<Rightarrow> nat \<Rightarrow>
       (string \<times> (string list \<Rightarrow> 'z conn \<Rightarrow> ((exn + unit) \<times> 'z conn) option)) list" where
  "commands ops n =
     [(''protocol_version'', \<lambda>args s. Some (protocol_version_cmd args s)),
      (''quit'', \<lambda>args s. Some (quit_cmd args s)),
      (''name'', \<lambda>args s. Some (name_cmd ops args s)),
      (''boardsize'', \<lambda>args s. Some (boardsize_cmd ops args s)),
      (''showboard'', \<lambda>args s. Some (showboard_cmd ops args s)),
      (''clear_board'', \<lambda>args s. Some (clear_board_cmd ops args s)),
      (''komi'', \<lambda>args s. Some (komi_cmd ops args s)),
      (''version'', \<lambda>args s. Some (version_cmd ops args s)),
      (''known_command'', \<lambda>args s. Some (known_command_cmd args s)),
      (''set_free_handicap'', \<lambda>args s. Some (set_free_handicap ops args s)),
      (''genmove'', genmove_cmd ops n),
      (''list_commands'', \<lambda>args s. Some (list_commands_cmd args s)),
      (''play'', \<lambda>args s. Some (play_cmd ops args s)),
      (''final_score'', \<lambda>args s. Some (final_score_cmd ops args s)),
      (''legal_moves'', \<lambda>args s. Some (legal_moves_cmd ops args s)),
      (''timelimit'', \<lambda>args s. Some (timelimit_cmd ops args s)),
      (''solve'', solve_cmd ops n)]"

text \<open>
  \<^verbatim>\<open>get_cmd\<close>, on one line of input. \<open>elements_of\<close> is the list
  \<^verbatim>\<open>elements\<close>: the line without a leading number, cut at white space. An
  exception of a handler is logged and raised again, so it leaves \<^verbatim>\<open>get_cmd\<close> as
  it left the handler.
\<close>

definition elements_of :: "string \<Rightarrow> string list" where
  "elements_of command =
     split_ws (if is_digit (hd command)
               then lstrip (dropWhile is_digit command) else command)"

definition get_cmd ::
    "'z api \<Rightarrow> nat \<Rightarrow> string \<Rightarrow> 'z conn \<Rightarrow> ((exn + unit) \<times> 'z conn) option" where
  "get_cmd ops n command s =
     (if length (strip_chars [CHR '' '', CHR 0x0D, CHR 0x09] command) = 0 then Some (Inr (), s)
      else if hd command = CHR ''#'' then Some (Inr (), s)
      else
        (case elements_of command of
              [] \<Rightarrow> Some (Inr (), s)
            | command_name # args \<Rightarrow>
                (if command_name = ''play'' \<and>
                    (case map_of argmap command_name of
                       Some (k, usage) \<Rightarrow> k \<noteq> length args
                     | None \<Rightarrow> False)
                 then
                   (case getitem args 0 of
                      Inl e \<Rightarrow> Some (Inl e, s)
                    | Inr a \<Rightarrow>
                        Some (Inr (),
                          respond (''illegal move: '' @ a @ '' wrong number of arguments'') s))
                 else
                   (case arg_error command_name (length args) s of
                      (True, s') \<Rightarrow> Some (Inr (), s')
                    | (False, s') \<Rightarrow>
                        (case map_of (commands ops n) command_name of
                           Some handler \<Rightarrow> handler args s'
                         | None \<Rightarrow> Some (Inr (), error ''Unknown command'' s'))))))"

subsection \<open>A small board to run the definitions on\<close>

text \<open>
  A board of two points, \<^verbatim>\<open>a1\<close> and \<^verbatim>\<open>a2\<close>: a stone may go on an empty point,
  and the player who has no move has lost. It implements the interface of \<open>api\<close> and is
  used for the concrete runs below; no statement about the module depends on it.
\<close>

definition toy_legal :: "unit GoBoard \<Rightarrow> int \<Rightarrow> nat list" where
  "toy_legal b c =
     (if c = BLACK \<or> c = WHITE
      then filter (\<lambda>i. i < length (board b) \<and> board b ! i = EMPTY) [0, 1]
      else [])"

definition toy_winner :: "unit GoBoard \<Rightarrow> int option" where
  "toy_winner b = (if toy_legal b (to_play b) = [] then Some (3 - to_play b) else None)"

definition toy_move :: "unit GoBoard \<Rightarrow> int \<Rightarrow> int \<Rightarrow> (exn + bool) \<times> unit GoBoard" where
  "toy_move b p c =
     (if 0 \<le> p \<and> nat p \<in> set (toy_legal b c)
      then (Inr True, b\<lparr>board := (board b)[nat p := c], to_play := 3 - c\<rparr>)
      else (Inl (ValueError ''occupied''), b))"

definition toy_coord :: "string \<Rightarrow> int \<Rightarrow> exn + (int \<times> int) option" where
  "toy_coord m sz =
     (if m = ''a1'' then Inr (Some (1, 1))
      else if m = ''a2'' then Inr (Some (2, 1))
      else if m = ''pass'' then Inr None
      else Inl (ValueError ''wrong coordinate''))"

definition toy_color :: "string \<Rightarrow> exn + int" where
  "toy_color c =
     (if c = ''b'' then Inr BLACK else if c = ''w'' then Inr WHITE
      else Inl (ValueError ''wrong color''))"

definition toy_format :: "int \<times> int \<Rightarrow> string" where
  "toy_format rc = (if fst rc = 1 then ''a1'' else ''a2'')"

definition toy_number :: "string \<Rightarrow> exn + int" where
  "toy_number a =
     (if a = ''0'' then Inr 0 else if a = ''1'' then Inr 1 else if a = ''2'' then Inr 2
      else Inl (ValueError ''invalid literal for int()''))"

definition toy :: "unit api" where
  "toy = \<lparr>
     color_to_int = toy_color,
     opponent = (\<lambda>c. 3 - c),
     generate_legal_moves = (\<lambda>b c. Inr (join '' '' (map (\<lambda>i. [''a1'', ''a2''] ! i) (toy_legal b c)))),
     generate_random_move = (\<lambda>b c k. case toy_legal b c of [] \<Rightarrow> 0 | i # _ \<Rightarrow> int i),
     move_to_coord = toy_coord,
     format_point = toy_format,
     coord_to_point = (\<lambda>b row col. row - 1),
     point_to_coord = (\<lambda>b p. (p + 1, 1)),
     move = toy_move,
     check_legal = (\<lambda>b p c. 0 \<le> p \<and> nat p \<in> set (toy_legal b c)),
     get_winner = toy_winner,
     staticallyEvaluateForToPlay = (\<lambda>b. if toy_winner b = Some (to_play b) then 1 else - 1),
     reset = (\<lambda>b k. b\<lparr>board := replicate (nat k) EMPTY, to_play := BLACK, bsize := k\<rparr>),
     final_score = (\<lambda>b k. ''0''),
     get_twoD_board = (\<lambda>b. []),
     engine_name = ''toy'',
     engine_version = ''1'',
     process_time = (\<lambda>k. real k),
     float_sub = (\<lambda>x y. x - y),
     int_of_str = toy_number,
     float_of_str = (\<lambda>a. case toy_number a of Inl e \<Rightarrow> Inl e | Inr k \<Rightarrow> Inr (real_of_int k))\<rparr>"

definition toy_board :: "int list \<Rightarrow> int \<Rightarrow> unit GoBoard" where
  "toy_board cells c = \<lparr>board = cells, to_play = c, bsize = 2, rest = ()\<rparr>"

text \<open>The connection as \<^verbatim>\<open>__init__\<close> leaves it, on a given board.\<close>

definition init_conn :: "'z GoBoard \<Rightarrow> 'z conn" where
  "init_conn b = \<lparr>komi = 0, gboard = b, notdone = False, timelimit = 1, starttime = 0,
     winMoves = [], genCall = False, out = [], clock = 0, draws = 0\<rparr>"

text \<open>
  Three variants of the small board: one whose winner detection never fires, one that
  reports the side to move as the winner, and one whose legality check rejects every move.
\<close>

definition silent_toy :: "unit api" where
  "silent_toy = toy\<lparr>get_winner := (\<lambda>b. None)\<rparr>"

definition mover_wins_toy :: "unit api" where
  "mover_wins_toy = toy\<lparr>get_winner := (\<lambda>b. Some (to_play b))\<rparr>"

definition strict_toy :: "unit api" where
  "strict_toy = toy\<lparr>check_legal := (\<lambda>b p c. False)\<rparr>"


subsection \<open>Notions used to state the properties\<close>

text \<open>
  The response of \<^verbatim>\<open>solve\<close> as the specification words it: the colour of the side to
  move and the first winning move when one was recorded; otherwise the colour of the
  opponent when the search ran to its end; otherwise \<^verbatim>\<open>unknown\<close>.
\<close>

definition color_token :: "int \<Rightarrow> string" where
  "color_token c = (if c = BLACK then ''b'' else ''w'')"

definition solve_response :: "'z api \<Rightarrow> 'z conn \<Rightarrow> string" where
  "solve_response ops s =
     (if winMoves s \<noteq> [] then color_token (to_play (gboard s)) @ '' '' @ hd (winMoves s)
      else if \<not> notdone s then color_token (opponent ops (to_play (gboard s)))
      else ''unknown'')"


text \<open>
  The connection as \<^verbatim>\<open>solve_cmd\<close> hands it to the search: scratch state cleared,
  start time read from the clock.
\<close>

definition search_start :: "'z api \<Rightarrow> 'z conn \<Rightarrow> 'z conn" where
  "search_start ops s =
     s\<lparr>winMoves := [], notdone := False,
       starttime := process_time ops (clock s), clock := Suc (clock s)\<rparr>"


text \<open>The number of empty points of a board array.\<close>

definition empties :: "int list \<Rightarrow> nat" where
  "empties xs = length (filter (\<lambda>c. c = EMPTY) xs)"


text \<open>
  What the search relies on when it plays a move string \<open>m\<close> on a board \<open>b\<close> for the
  side to move: the string decodes to an empty point of the array, \<^verbatim>\<open>board.move\<close>
  raises nothing and changes nothing but that point and \<^verbatim>\<open>to_play\<close>, and the
  opponent of the new side to move is the side that moved. \<open>stone_stays\<close> adds that the
  point is not empty afterwards.
\<close>

definition plain_move :: "'z api \<Rightarrow> 'z GoBoard \<Rightarrow> string \<Rightarrow> bool" where
  "plain_move ops b m \<longleftrightarrow>
     (case move_to_coord ops m (bsize b) of
        Inl e \<Rightarrow> False
      | Inr None \<Rightarrow> False
      | Inr (Some (row, col)) \<Rightarrow>
          (let p = coord_to_point ops b row col;
               b' = snd (move ops b p (to_play b))
           in 0 \<le> p \<and> p < int (length (board b)) \<and> board b ! nat p = EMPTY \<and>
              isl (fst (move ops b p (to_play b))) = False \<and>
              b' = b\<lparr>board := (board b)[nat p := board b' ! nat p], to_play := to_play b'\<rparr> \<and>
              opponent ops (to_play b') = to_play b))"

definition stone_stays :: "'z api \<Rightarrow> 'z GoBoard \<Rightarrow> string \<Rightarrow> bool" where
  "stone_stays ops b m \<longleftrightarrow>
     (case move_to_coord ops m (bsize b) of
        Inl e \<Rightarrow> False
      | Inr None \<Rightarrow> False
      | Inr (Some (row, col)) \<Rightarrow>
          (let p = coord_to_point ops b row col
           in board (snd (move ops b p (to_play b))) ! nat p \<noteq> EMPTY))"


text \<open>
  The two assumptions on a board implementation. \<open>undo_contract\<close>: on a position with no
  winner, every move string of the enumeration is played as above. \<open>board_contract\<close>:
  moreover the enumeration does not raise and every move leaves a stone.
\<close>

definition undo_contract :: "'z api \<Rightarrow> bool" where
  "undo_contract ops \<longleftrightarrow>
     (\<forall>b. get_winner ops b = None \<longrightarrow>
        (case generate_legal_moves ops b (to_play b) of
           Inl e \<Rightarrow> True
         | Inr ms \<Rightarrow> \<forall>m \<in> set (split_space ms). plain_move ops b m))"

definition board_contract :: "'z api \<Rightarrow> bool" where
  "board_contract ops \<longleftrightarrow>
     (\<forall>b. get_winner ops b = None \<longrightarrow>
        (case generate_legal_moves ops b (to_play b) of
           Inl e \<Rightarrow> False
         | Inr ms \<Rightarrow> \<forall>m \<in> set (split_space ms). plain_move ops b m \<and> stone_stays ops b m))"

text \<open>
  The \<open>j\<close>-th reading of the clock is beyond the limit: the elapsed time, computed as
  line 437 does by subtracting the start time from the reading, exceeds the time limit.
\<close>

definition late_reading :: "'z api \<Rightarrow> real \<Rightarrow> int \<Rightarrow> nat \<Rightarrow> bool" where
  "late_reading ops start limit j \<longleftrightarrow>
     float_sub ops (process_time ops j) start > real_of_int limit"

section \<open>Properties of the dispatcher\<close>

subsection \<open>Reading a line\<close>

lemma dropWhile_keeps: "c \<in> set xs \<Longrightarrow> \<not> P c \<Longrightarrow> c \<in> set (dropWhile P xs)"
  by (induction xs) auto

lemma member_not_Nil: "c \<in> set xs \<Longrightarrow> xs \<noteq> []"
  by auto

lemma strip_chars_nonempty:
  assumes "c \<in> set s" and "c \<notin> set chars"
  shows "strip_chars chars s \<noteq> []"
proof -
  have "c \<in> set (dropWhile (\<lambda>c. c \<in> set chars) s)"
    using assms by (rule dropWhile_keeps)
  then have "c \<in> set (rev (dropWhile (\<lambda>c. c \<in> set chars) s))"
    by (simp only: set_rev)
  then have "c \<in> set (dropWhile (\<lambda>c. c \<in> set chars) (rev (dropWhile (\<lambda>c. c \<in> set chars) s)))"
    using assms(2) by (rule dropWhile_keeps)
  then have "dropWhile (\<lambda>c. c \<in> set chars) (rev (dropWhile (\<lambda>c. c \<in> set chars) s)) \<noteq> []"
    by (rule member_not_Nil)
  then show ?thesis unfolding strip_chars_def by (simp only: rev_is_Nil_conv not_False_eq_True)
qed

lemma split_where_not_Nil: "split_where P s \<noteq> []"
  by (induction s) (auto split: list.splits)

lemma split_ws_nonspace: "split_ws s \<noteq> [] \<Longrightarrow> \<exists>c \<in> set s. \<not> is_space c"
  unfolding split_ws_def
  by (induction s) (auto split: list.splits if_splits simp: filter_empty_conv)

lemma split_ws_hd:
  "\<not> is_space c \<Longrightarrow> \<exists>w ws. split_ws (c # cs) = (c # w) # ws"
  unfolding split_ws_def using split_where_not_Nil [of is_space cs]
  by (auto split: list.splits)

lemma set_elements_src:
  "set (if is_digit (hd command) then lstrip (dropWhile is_digit command) else command)
     \<subseteq> set command"
  unfolding lstrip_def
  by (auto dest!: set_dropWhileD)

lemma not_ignored:
  assumes "elements_of command = name # args" and "hd name \<noteq> CHR ''#''"
  shows "length (strip_chars [CHR '' '', CHR 0x0D, CHR 0x09] command) \<noteq> 0 \<and>
         hd command \<noteq> CHR ''#''"
proof
  have "split_ws (if is_digit (hd command) then lstrip (dropWhile is_digit command) else command)
          \<noteq> []"
    using assms(1) unfolding elements_of_def by simp
  from split_ws_nonspace [OF this] set_elements_src [of command]
  obtain c where c: "c \<in> set command" "\<not> is_space c"
    by blast
  have "c \<notin> set [CHR '' '', CHR 0x0D, CHR 0x09]"
    using c(2) by (auto simp: is_space_def)
  from strip_chars_nonempty [OF c(1) this]
  show "length (strip_chars [CHR '' '', CHR 0x0D, CHR 0x09] command) \<noteq> 0"
    by (simp only: length_0_conv not_False_eq_True)
next
  show "hd command \<noteq> CHR ''#''"
  proof
    assume h: "hd command = CHR ''#''"
    have nd: "\<not> is_digit (CHR ''#'')" by (simp add: is_digit_def)
    have ns: "\<not> is_space (CHR ''#'')" by (simp add: is_space_def)
    have el: "split_ws command = name # args"
      using assms(1) nd h unfolding elements_of_def by simp
    then have "command \<noteq> []"
      by (auto simp: split_ws_def)
    then obtain cs where cs: "command = CHR ''#'' # cs"
      using h by (cases command) auto
    from split_ws_hd [OF ns, of cs] obtain w ws where "split_ws command = (CHR ''#'' # w) # ws"
      unfolding cs by blast
    then have "name = CHR ''#'' # w"
      using el by simp
    then show False using assms(2) by simp
  qed
qed

lemma get_cmd_elements:
  assumes "elements_of command = name # args" and "hd name \<noteq> CHR ''#''"
  shows "get_cmd ops n command s =
     (if name = ''play'' \<and> length args \<noteq> 2
      then (case getitem args 0 of
              Inl e \<Rightarrow> Some (Inl e, s)
            | Inr a \<Rightarrow> Some (Inr (),
                        respond (''illegal move: '' @ a @ '' wrong number of arguments'') s))
      else (case arg_error name (length args) s of
              (True, s') \<Rightarrow> Some (Inr (), s')
            | (False, s') \<Rightarrow>
                (case map_of (commands ops n) name of
                   Some handler \<Rightarrow> handler args s'
                 | None \<Rightarrow> Some (Inr (), error ''Unknown command'' s'))))"
proof -
  have play: "map_of argmap ''play'' = Some (2, ''Usage: play {b, w} MOVE'')"
    by (simp add: argmap_def)
  note ni = not_ignored [OF assms]
  have top: "get_cmd ops n command s =
        (if name = ''play'' \<and>
                    (case map_of argmap name of
                       Some (k, usage) \<Rightarrow> k \<noteq> length args
                     | None \<Rightarrow> False)
                 then
                   (case getitem args 0 of
                      Inl e \<Rightarrow> Some (Inl e, s)
                    | Inr a \<Rightarrow>
                        Some (Inr (),
                          respond (''illegal move: '' @ a @ '' wrong number of arguments'') s))
                 else
                   (case arg_error name (length args) s of
                      (True, s') \<Rightarrow> Some (Inr (), s')
                    | (False, s') \<Rightarrow>
                        (case map_of (commands ops n) name of
                           Some handler \<Rightarrow> handler args s'
                         | None \<Rightarrow> Some (Inr (), error ''Unknown command'' s'))))"
    unfolding get_cmd_def assms(1) using ni by (simp only: list.case if_False length_0_conv)
  show ?thesis
  proof (cases "name = ''play''")
    case True
    show ?thesis unfolding top unfolding True play
      by (simp only: option.case prod.case eq_commute [of "2::nat"])
  next
    case False
    show ?thesis unfolding top by (simp only: False simp_thms if_False)
  qed
qed

text \<open>
  Claim C7, as the code has it. A line whose command name is \<^verbatim>\<open>play\<close> and that
  carries at least one argument, but not exactly two, is answered by \<^verbatim>\<open>get_cmd\<close>
  itself through \<^verbatim>\<open>respond\<close>: the response is the success-framed
  \<^verbatim>\<open>= illegal move: <first-arg> wrong number of arguments\<close>, nothing else of the
  connection changes, and the result does not depend on the board interface, so no handler
  ran.
\<close>

theorem play_wrong_arity:
  assumes "elements_of command = ''play'' # a # args" and "length (a # args) \<noteq> 2"
  shows "get_cmd ops n command s =
           Some (Inr (), s\<lparr>out := out s @
             [''= illegal move: '' @ a @ '' wrong number of arguments'' @ newline @ newline]\<rparr>)"
proof -
  have "hd ''play'' \<noteq> CHR ''#''" by simp
  from get_cmd_elements [OF assms(1) this] assms(2)
  show ?thesis by (simp add: getitem_def index_of_def respond_def)
qed

lemma toy_elements_play_b: "elements_of ''play b'' = [''play'', ''b'']"
  by (simp add: elements_of_def split_ws_def is_space_def is_digit_def)

text \<open>The line \<^verbatim>\<open>play b\<close> on the two-point board.\<close>

theorem play_wrong_arity_witness:
  "get_cmd toy 0 ''play b'' (init_conn (toy_board [0, 0] 1)) =
     Some (Inr (), (init_conn (toy_board [0, 0] 1))\<lparr>out :=
       [''= illegal move: b wrong number of arguments'' @ newline @ newline]\<rparr>)"
  using play_wrong_arity [of "''play b''" "''b''" "[]" toy 0 "init_conn (toy_board [0, 0] 1)"]
  by (simp add: toy_elements_play_b init_conn_def)

lemma toy_elements_play: "elements_of ''play'' = [''play'']"
  by (simp add: elements_of_def split_ws_def is_space_def is_digit_def)

lemma play_b_run:
  "get_cmd toy 0 ''play b'' (init_conn (toy_board [0, 0] 1)) =
     Some (Inr (), (init_conn (toy_board [0, 0] 1))\<lparr>out :=
       [''= illegal move: b wrong number of arguments'' @ newline @ newline]\<rparr>)"
  by (simp add: get_cmd_elements [OF toy_elements_play_b] getitem_def index_of_def respond_def init_conn_def)

lemma play_run:
  "get_cmd toy 0 ''play'' (init_conn (toy_board [0, 0] 1)) =
     Some (Inl (IndexError ''list index out of range''), init_conn (toy_board [0, 0] 1))"
  by (simp add: get_cmd_elements [OF toy_elements_play] getitem_def index_of_def)

text \<open>
  Claim C7 as stated fails: \<^verbatim>\<open>play b\<close> is answered with the prefix \<^verbatim>\<open>=\<close>,
  not \<^verbatim>\<open>?\<close>, and \<^verbatim>\<open>play\<close> with no argument raises
  \<^verbatim>\<open>IndexError\<close> at \<^verbatim>\<open>args[0]\<close> with no response.
\<close>

theorem play_wrong_arity_counterexample:
  "get_cmd toy 0 ''play b'' (init_conn (toy_board [0, 0] 1)) =
     Some (Inr (), (init_conn (toy_board [0, 0] 1))\<lparr>out :=
       [''= illegal move: b wrong number of arguments'' @ newline @ newline]\<rparr>) \<and>
   get_cmd toy 0 ''play b'' (init_conn (toy_board [0, 0] 1)) \<noteq>
     Some (Inr (), (init_conn (toy_board [0, 0] 1))\<lparr>out :=
       [''? illegal move: b wrong number of arguments'' @ newline @ newline]\<rparr>) \<and>
   get_cmd toy 0 ''play'' (init_conn (toy_board [0, 0] 1)) =
     Some (Inl (IndexError ''list index out of range''), init_conn (toy_board [0, 0] 1))"
  unfolding play_b_run play_run by (simp add: init_conn_def)

lemma arg_error_ok:
  "map_of argmap name = Some (k, usage) \<Longrightarrow> k \<le> m \<Longrightarrow> arg_error name m s = (False, s)"
  by (simp add: arg_error_def)

lemma argmap_legal_moves: "map_of argmap ''legal_moves'' = Some (1, ''Usage: legal_moves {w, b}'')"
  by (simp add: argmap_def)

lemma argmap_play: "map_of argmap ''play'' = Some (2, ''Usage: play {b, w} MOVE'')"
  by (simp add: argmap_def)

lemma argmap_genmove: "map_of argmap ''genmove'' = Some (1, ''Usage: genmove {w, b}'')"
  by (simp add: argmap_def)

lemma commands_legal_moves:
  "map_of (commands ops n) ''legal_moves'' = Some (\<lambda>args s. Some (legal_moves_cmd ops args s))"
  by (simp add: commands_def)

lemma commands_play:
  "map_of (commands ops n) ''play'' = Some (\<lambda>args s. Some (play_cmd ops args s))"
  by (simp add: commands_def)

lemma commands_genmove: "map_of (commands ops n) ''genmove'' = Some (genmove_cmd ops n)"
  by (simp add: commands_def)

lemma get_cmd_legal_moves:
  assumes "elements_of command = ''legal_moves'' # a # args"
  shows "get_cmd ops n command s = Some (legal_moves_cmd ops (a # args) s)"
proof -
  have h: "hd ''legal_moves'' \<noteq> CHR ''#''" by simp
  have ae: "arg_error ''legal_moves'' (length (a # args)) s = (False, s)"
    by (rule arg_error_ok [OF argmap_legal_moves]) simp
  show ?thesis
    unfolding get_cmd_elements [OF assms h] ae commands_legal_moves by simp
qed

lemma get_cmd_play:
  assumes "elements_of command = [''play'', a, mv]"
  shows "get_cmd ops n command s = Some (play_cmd ops [a, mv] s)"
proof -
  have h: "hd ''play'' \<noteq> CHR ''#''" by simp
  have ae: "arg_error ''play'' (length [a, mv]) s = (False, s)"
    by (rule arg_error_ok [OF argmap_play]) simp
  show ?thesis
    unfolding get_cmd_elements [OF assms h] ae commands_play by simp
qed

lemma get_cmd_genmove:
  assumes "elements_of command = ''genmove'' # a # args"
  shows "get_cmd ops n command s = genmove_cmd ops n (a # args) s"
proof -
  have h: "hd ''genmove'' \<noteq> CHR ''#''" by simp
  have ae: "arg_error ''genmove'' (length (a # args)) s = (False, s)"
    by (rule arg_error_ok [OF argmap_genmove]) simp
  show ?thesis
    unfolding get_cmd_elements [OF assms h] ae commands_genmove by simp
qed

text \<open>
  Claim C10. When \<^verbatim>\<open>color_to_int\<close> or \<^verbatim>\<open>generate_legal_moves\<close> raises
  an exception \<open>e\<close> during \<^verbatim>\<open>legal_moves\<close>, the dispatcher returns normally and
  the one response written is the success-framed \<^verbatim>\<open>= Error: <str(e)>\<close>; no
  \<^verbatim>\<open>?\<close> response is written and nothing is raised.
\<close>

theorem legal_moves_error_response:
  assumes "elements_of command = ''legal_moves'' # a # args"
    and "is_Exception e"
    and "color_to_int ops (lower a) = Inl e \<or>
         (\<exists>color. color_to_int ops (lower a) = Inr color \<and>
                  generate_legal_moves ops (gboard s) color = Inl e)"
  shows "get_cmd ops n command s =
           Some (Inr (), s\<lparr>out := out s @ [''= Error: '' @ str_exn e @ newline @ newline]\<rparr>)"
  unfolding get_cmd_legal_moves [OF assms(1)]
  using assms(2,3) by (auto simp add: legal_moves_cmd_def getitem_def index_of_def respond_def)

text \<open>
  Claim C6, as the code has it. For \<^verbatim>\<open>play COLOR MOVE\<close> whose colour and move
  decode: when \<^verbatim>\<open>board.move\<close> rejects the move by raising \<open>e\<close>, the dispatcher
  returns normally, the response is the success-framed
  \<^verbatim>\<open>= illegal move: <color> <move> <str(e)>\<close> (colour in lower case), and the board
  is the one \<^verbatim>\<open>board.move\<close> left behind; when \<^verbatim>\<open>board.move\<close> accepts the
  move, the response is the empty success \<^verbatim>\<open>= \<close>.
\<close>

theorem play_illegal_move_response:
  assumes "elements_of command = [''play'', a, mv]"
    and "color_to_int ops (lower a) = Inr color"
    and "move_to_coord ops mv (bsize (gboard s)) = Inr (Some (row, col))"
    and "move ops (gboard s) (coord_to_point ops (gboard s) row col) color = (r, b)"
  shows "(\<forall>e. r = Inl e \<and> is_Exception e \<longrightarrow>
            get_cmd ops n command s =
              Some (Inr (), s\<lparr>gboard := b, out := out s @
                [''= illegal move: '' @ lower a @ '' '' @ mv @ '' '' @ str_exn e @
                 newline @ newline]\<rparr>)) \<and>
         (r = Inr True \<longrightarrow>
            get_cmd ops n command s =
              Some (Inr (), s\<lparr>gboard := b, out := out s @ [''= '' @ newline @ newline]\<rparr>))"
  unfolding get_cmd_play [OF assms(1)]
  using assms(2,3,4) by (simp add: play_cmd_def getitem_def index_of_def respond_def)

lemma toy_elements_legal_moves_x: "elements_of ''legal_moves x'' = [''legal_moves'', ''x'']"
  by (simp add: elements_of_def split_ws_def is_space_def is_digit_def)

lemma toy_elements_play_b_a1: "elements_of ''play b a1'' = [''play'', ''b'', ''a1'']"
  by (simp add: elements_of_def split_ws_def is_space_def is_digit_def)

lemma toy_elements_play_b_a2: "elements_of ''play b a2'' = [''play'', ''b'', ''a2'']"
  by (simp add: elements_of_def split_ws_def is_space_def is_digit_def)

lemma lower_b: "lower ''b'' = ''b''"
  by (simp add: lower_def lower_char_def)

lemma lower_x: "lower ''x'' = ''x''"
  by (simp add: lower_def lower_char_def)

lemmas toy_simps =
  toy_def toy_legal_def toy_winner_def toy_move_def toy_coord_def toy_color_def
  toy_format_def toy_board_def init_conn_def EMPTY_def BLACK_def WHITE_def

text \<open>The line \<^verbatim>\<open>legal_moves x\<close>: the colour \<^verbatim>\<open>x\<close> does not decode.\<close>

theorem legal_moves_error_response_witness:
  "get_cmd toy 0 ''legal_moves x'' (init_conn (toy_board [0, 0] 1)) =
     Some (Inr (), (init_conn (toy_board [0, 0] 1))\<lparr>out :=
       [''= Error: wrong color'' @ newline @ newline]\<rparr>)"
  using legal_moves_error_response [of "''legal_moves x''" "''x''" "[]" "ValueError ''wrong color''"
          toy "init_conn (toy_board [0, 0] 1)" 0]
  by (simp add: toy_elements_legal_moves_x lower_x toy_simps)

lemma play_b_a1_run:
  "get_cmd toy 0 ''play b a1'' (init_conn (toy_board [1, 0] 1)) =
     Some (Inr (), (init_conn (toy_board [1, 0] 1))\<lparr>out :=
       [''= illegal move: b a1 occupied'' @ newline @ newline]\<rparr>)"
  unfolding get_cmd_play [OF toy_elements_play_b_a1]
  by (simp add: play_cmd_def getitem_def index_of_def respond_def lower_b toy_simps)

text \<open>
  Claim C6 as stated fails: on an occupied point the response to \<^verbatim>\<open>play b a1\<close>
  carries the prefix \<^verbatim>\<open>=\<close>, not \<^verbatim>\<open>?\<close>.
\<close>

theorem play_illegal_move_counterexample:
  "get_cmd toy 0 ''play b a1'' (init_conn (toy_board [1, 0] 1)) =
     Some (Inr (), (init_conn (toy_board [1, 0] 1))\<lparr>out :=
       [''= illegal move: b a1 occupied'' @ newline @ newline]\<rparr>) \<and>
   get_cmd toy 0 ''play b a1'' (init_conn (toy_board [1, 0] 1)) \<noteq>
     Some (Inr (), (init_conn (toy_board [1, 0] 1))\<lparr>out :=
       [''? illegal move: b a1 occupied'' @ newline @ newline]\<rparr>)"
  unfolding play_b_a1_run by (simp add: init_conn_def)

text \<open>An occupied point and a free point of the two-point board.\<close>

theorem play_illegal_move_response_witness:
  "get_cmd toy 0 ''play b a1'' (init_conn (toy_board [1, 0] 1)) =
     Some (Inr (), (init_conn (toy_board [1, 0] 1))\<lparr>out :=
       [''= illegal move: b a1 occupied'' @ newline @ newline]\<rparr>) \<and>
   get_cmd toy 0 ''play b a2'' (init_conn (toy_board [1, 0] 1)) =
     Some (Inr (), (init_conn (toy_board [1, 1] 2))\<lparr>out := [''= '' @ newline @ newline]\<rparr>)"
proof -
  have m1: "move toy (gboard (init_conn (toy_board [1, 0] 1)))
              (coord_to_point toy (gboard (init_conn (toy_board [1, 0] 1))) 1 1) 1 =
            (Inl (ValueError ''occupied''), toy_board [1, 0] 1)"
    by (simp add: toy_simps)
  have m2: "move toy (gboard (init_conn (toy_board [1, 0] 1)))
              (coord_to_point toy (gboard (init_conn (toy_board [1, 0] 1))) 2 1) 1 =
            (Inr True, toy_board [1, 1] 2)"
    by (simp add: toy_simps)
  have c: "color_to_int toy (lower ''b'') = Inr 1"
    by (simp add: lower_b toy_simps)
  have d1: "move_to_coord toy ''a1'' (bsize (gboard (init_conn (toy_board [1, 0] 1)))) =
              Inr (Some (1, 1))"
    by (simp add: toy_simps)
  have d2: "move_to_coord toy ''a2'' (bsize (gboard (init_conn (toy_board [1, 0] 1)))) =
              Inr (Some (2, 1))"
    by (simp add: toy_simps)
  from play_illegal_move_response [OF toy_elements_play_b_a1 c d1 m1, of 0]
       play_illegal_move_response [OF toy_elements_play_b_a2 c d2 m2, of 0]
  show ?thesis
    by (simp add: lower_b toy_simps)
qed

section \<open>Properties of the search\<close>

subsection \<open>The cases of one call and of one turn of the loop\<close>

lemma undo_fields:
  "undo ops p s = Inr s' \<Longrightarrow>
     notdone s' = notdone s \<and> winMoves s' = winMoves s \<and> clock s' = clock s \<and>
     out s' = out s \<and> genCall s' = genCall s \<and> timelimit s' = timelimit s \<and>
     starttime s' = starttime s \<and> komi s' = komi s \<and> draws s' = draws s"
  by (auto simp: undo_def split: sum.splits)

lemma alphabeta_entry_abort:
  "notdone s \<or> winMoves s \<noteq> [] \<Longrightarrow>
     alphabeta ops (Suc n) s alpha beta d = Some (Inr Abort, s\<lparr>clock := Suc (clock s)\<rparr>)"
  by (simp add: Let_def)

lemma alphabeta_timeout:
  "\<not> notdone s \<Longrightarrow> winMoves s = [] \<Longrightarrow>
   float_sub ops (process_time ops (clock s)) (starttime s) > real_of_int (timelimit s) \<Longrightarrow>
     alphabeta ops (Suc n) s alpha beta d =
       Some (Inr Abort, s\<lparr>clock := Suc (clock s), notdone := True\<rparr>)"
  by (simp add: Let_def)

lemma alphabeta_terminal:
  "\<not> notdone s \<Longrightarrow> winMoves s = [] \<Longrightarrow>
   \<not> float_sub ops (process_time ops (clock s)) (starttime s) > real_of_int (timelimit s) \<Longrightarrow>
   get_winner ops (gboard s) = Some w \<Longrightarrow>
     alphabeta ops (Suc n) s alpha beta d =
       Some (Inr (Val (staticallyEvaluateForToPlay ops (gboard s))),
             s\<lparr>clock := Suc (clock s)\<rparr>)"
  by (simp add: Let_def)

lemma alphabeta_enumerate:
  "\<not> notdone s \<Longrightarrow> winMoves s = [] \<Longrightarrow>
   \<not> float_sub ops (process_time ops (clock s)) (starttime s) > real_of_int (timelimit s) \<Longrightarrow>
   get_winner ops (gboard s) = None \<Longrightarrow>
     alphabeta ops (Suc n) s alpha beta d =
       (case generate_legal_moves ops (gboard s) (to_play (gboard s)) of
          Inl e \<Rightarrow> Some (Inl e, s\<lparr>clock := Suc (clock s)\<rparr>)
        | Inr ms \<Rightarrow> for_moves ops n (split_space ms) (s\<lparr>clock := Suc (clock s)\<rparr>) alpha beta d)"
  by (simp add: Let_def)

lemma alphabeta_cases [consumes 1, case_names abort timeout terminal enum_raise loop]:
  assumes "alphabeta ops k s alpha beta d = Some (r, s')"
  obtains
    n where "k = Suc n" "notdone s \<or> winMoves s \<noteq> []"
      "r = Inr Abort" "s' = s\<lparr>clock := Suc (clock s)\<rparr>"
  | n where "k = Suc n" "\<not> notdone s" "winMoves s = []"
      "r = Inr Abort" "s' = s\<lparr>clock := Suc (clock s), notdone := True\<rparr>"
  | n w where "k = Suc n" "\<not> notdone s" "winMoves s = []" "get_winner ops (gboard s) = Some w"
      "r = Inr (Val (staticallyEvaluateForToPlay ops (gboard s)))"
      "s' = s\<lparr>clock := Suc (clock s)\<rparr>"
  | n e where "k = Suc n" "\<not> notdone s" "winMoves s = []" "get_winner ops (gboard s) = None"
      "generate_legal_moves ops (gboard s) (to_play (gboard s)) = Inl e"
      "r = Inl e" "s' = s\<lparr>clock := Suc (clock s)\<rparr>"
  | n ms where "k = Suc n" "\<not> notdone s" "winMoves s = []" "get_winner ops (gboard s) = None"
      "generate_legal_moves ops (gboard s) (to_play (gboard s)) = Inr ms"
      "for_moves ops n (split_space ms) (s\<lparr>clock := Suc (clock s)\<rparr>) alpha beta d = Some (r, s')"
proof (cases k)
  case 0
  with assms show ?thesis by simp
next
  case (Suc n)
  show ?thesis
  proof (cases "notdone s \<or> winMoves s \<noteq> []")
    case True
    from assms alphabeta_entry_abort [OF True, of ops n alpha beta d]
    show ?thesis using that(1) [OF Suc True] unfolding Suc by simp
  next
    case False
    then have c: "\<not> notdone s" "winMoves s = []" by simp_all
    show ?thesis
    proof (cases "float_sub ops (process_time ops (clock s)) (starttime s) > real_of_int (timelimit s)")
      case True
      from assms alphabeta_timeout [OF c True, of n alpha beta d]
      show ?thesis using that(2) [OF Suc c] unfolding Suc by simp
    next
      case nt: False
      show ?thesis
      proof (cases "get_winner ops (gboard s)")
        case (Some w)
        from assms alphabeta_terminal [OF c nt Some, of n alpha beta d]
        show ?thesis using that(3) [OF Suc c Some] unfolding Suc by simp
      next
        case None
        note eq = alphabeta_enumerate [OF c nt None, of n alpha beta d]
        show ?thesis
        proof (cases "generate_legal_moves ops (gboard s) (to_play (gboard s))")
          case (Inl e)
          from assms eq show ?thesis using that(4) [OF Suc c None Inl] unfolding Suc Inl by simp
        next
          case (Inr ms)
          from assms eq show ?thesis using that(5) [OF Suc c None Inr] unfolding Suc Inr by simp
        qed
      qed
    qed
  qed
qed

lemma for_moves_child:
  assumes "move_to_coord ops m (bsize (gboard s)) = Inr (Some (row, col))"
    and "move ops (gboard s) (coord_to_point ops (gboard s) row col) (to_play (gboard s)) =
           (Inr ok, b)"
    and "alphabeta ops n (s\<lparr>gboard := b\<rparr>) (- beta) (- alpha) (d + 1) = Some (rc, s2)"
  shows "for_moves ops n (m # ms) s alpha beta d =
     (case undo ops (coord_to_point ops (gboard s) row col) s2 of
        Inl e' \<Rightarrow> Some (Inl e', s2)
      | Inr s3 \<Rightarrow>
          (case rc of
             Inl e \<Rightarrow> Some (Inr Abort, s3)
           | Inr Abort \<Rightarrow> Some (Inr Abort, s3)
           | Inr (Val v) \<Rightarrow>
               (if - v > alpha \<and> d = 0 \<and> - v \<ge> 0
                  then Some (Inr Abort, s3\<lparr>winMoves := winMoves s3 @ [m]\<rparr>)
                else if notdone s3 \<or> winMoves s3 \<noteq> [] then Some (Inr Abort, s3)
                else if - v \<ge> beta then Some (Inr (Val beta), s3)
                else for_moves ops n ms s3 (if - v > alpha then - v else alpha) beta d)))"
proof (cases rc)
  case (Inl e)
  with assms show ?thesis by (simp split: sum.splits)
next
  case (Inr x)
  with assms show ?thesis by (cases x) (simp_all add: Let_def split: sum.splits)
qed

lemma for_moves_cases
  [consumes 1, case_names finished decode_raise decode_none move_raise child_none undo_raise
     child_abort win flagged cutoff continue]:
  assumes "for_moves ops n ms0 s alpha beta d = res"
  obtains
    "ms0 = []" "res = Some (Inr (Val alpha), s)"
  | m ms e where "ms0 = m # ms" "move_to_coord ops m (bsize (gboard s)) = Inl e"
      "res = Some (Inl e, s)"
  | m ms where "ms0 = m # ms" "move_to_coord ops m (bsize (gboard s)) = Inr None"
      "res = Some (Inl (TypeError ''NoneType object is not subscriptable''), s)"
  | m ms row col e b where "ms0 = m # ms"
      "move_to_coord ops m (bsize (gboard s)) = Inr (Some (row, col))"
      "move ops (gboard s) (coord_to_point ops (gboard s) row col) (to_play (gboard s)) =
         (Inl e, b)"
      "res = Some (Inl e, s\<lparr>gboard := b\<rparr>)"
  | m ms row col ok b where "ms0 = m # ms"
      "move_to_coord ops m (bsize (gboard s)) = Inr (Some (row, col))"
      "move ops (gboard s) (coord_to_point ops (gboard s) row col) (to_play (gboard s)) =
         (Inr ok, b)"
      "alphabeta ops n (s\<lparr>gboard := b\<rparr>) (- beta) (- alpha) (d + 1) = None"
      "res = None"
  | m ms row col ok b rc s2 e' where "ms0 = m # ms"
      "move_to_coord ops m (bsize (gboard s)) = Inr (Some (row, col))"
      "move ops (gboard s) (coord_to_point ops (gboard s) row col) (to_play (gboard s)) =
         (Inr ok, b)"
      "alphabeta ops n (s\<lparr>gboard := b\<rparr>) (- beta) (- alpha) (d + 1) = Some (rc, s2)"
      "undo ops (coord_to_point ops (gboard s) row col) s2 = Inl e'"
      "res = Some (Inl e', s2)"
  | m ms row col ok b rc s2 s3 where "ms0 = m # ms"
      "move_to_coord ops m (bsize (gboard s)) = Inr (Some (row, col))"
      "move ops (gboard s) (coord_to_point ops (gboard s) row col) (to_play (gboard s)) =
         (Inr ok, b)"
      "alphabeta ops n (s\<lparr>gboard := b\<rparr>) (- beta) (- alpha) (d + 1) = Some (rc, s2)"
      "undo ops (coord_to_point ops (gboard s) row col) s2 = Inr s3"
      "\<forall>v. rc \<noteq> Inr (Val v)"
      "res = Some (Inr Abort, s3)"
  | m ms row col ok b v s2 s3 where "ms0 = m # ms"
      "move_to_coord ops m (bsize (gboard s)) = Inr (Some (row, col))"
      "move ops (gboard s) (coord_to_point ops (gboard s) row col) (to_play (gboard s)) =
         (Inr ok, b)"
      "alphabeta ops n (s\<lparr>gboard := b\<rparr>) (- beta) (- alpha) (d + 1) = Some (Inr (Val v), s2)"
      "undo ops (coord_to_point ops (gboard s) row col) s2 = Inr s3"
      "- v > alpha" "d = 0" "- v \<ge> 0"
      "res = Some (Inr Abort, s3\<lparr>winMoves := winMoves s3 @ [m]\<rparr>)"
  | m ms row col ok b v s2 s3 where "ms0 = m # ms"
      "move_to_coord ops m (bsize (gboard s)) = Inr (Some (row, col))"
      "move ops (gboard s) (coord_to_point ops (gboard s) row col) (to_play (gboard s)) =
         (Inr ok, b)"
      "alphabeta ops n (s\<lparr>gboard := b\<rparr>) (- beta) (- alpha) (d + 1) = Some (Inr (Val v), s2)"
      "undo ops (coord_to_point ops (gboard s) row col) s2 = Inr s3"
      "\<not> (- v > alpha \<and> d = 0 \<and> - v \<ge> 0)" "notdone s3 \<or> winMoves s3 \<noteq> []"
      "res = Some (Inr Abort, s3)"
  | m ms row col ok b v s2 s3 where "ms0 = m # ms"
      "move_to_coord ops m (bsize (gboard s)) = Inr (Some (row, col))"
      "move ops (gboard s) (coord_to_point ops (gboard s) row col) (to_play (gboard s)) =
         (Inr ok, b)"
      "alphabeta ops n (s\<lparr>gboard := b\<rparr>) (- beta) (- alpha) (d + 1) = Some (Inr (Val v), s2)"
      "undo ops (coord_to_point ops (gboard s) row col) s2 = Inr s3"
      "\<not> (- v > alpha \<and> d = 0 \<and> - v \<ge> 0)" "\<not> notdone s3" "winMoves s3 = []"
      "- v \<ge> beta" "res = Some (Inr (Val beta), s3)"
  | m ms row col ok b v s2 s3 where "ms0 = m # ms"
      "move_to_coord ops m (bsize (gboard s)) = Inr (Some (row, col))"
      "move ops (gboard s) (coord_to_point ops (gboard s) row col) (to_play (gboard s)) =
         (Inr ok, b)"
      "alphabeta ops n (s\<lparr>gboard := b\<rparr>) (- beta) (- alpha) (d + 1) = Some (Inr (Val v), s2)"
      "undo ops (coord_to_point ops (gboard s) row col) s2 = Inr s3"
      "\<not> (- v > alpha \<and> d = 0 \<and> - v \<ge> 0)" "\<not> notdone s3" "winMoves s3 = []"
      "- v < beta"
      "res = for_moves ops n ms s3 (if - v > alpha then - v else alpha) beta d"
proof (cases ms0)
  case Nil
  with assms that(1) show ?thesis by simp
next
  case (Cons m ms)
  show ?thesis
  proof (cases "move_to_coord ops m (bsize (gboard s))")
    case (Inl e)
    with assms Cons that(2) show ?thesis by simp
  next
    case (Inr c)
    show ?thesis
    proof (cases c)
      case None
      with assms Cons Inr that(3) show ?thesis by simp
    next
      case (Some rcp)
      obtain row col where rcp: "rcp = (row, col)" by (cases rcp)
      note dec = Inr [unfolded Some rcp]
      obtain mr b where mv:
        "move ops (gboard s) (coord_to_point ops (gboard s) row col) (to_play (gboard s)) = (mr, b)"
        by (cases "move ops (gboard s) (coord_to_point ops (gboard s) row col) (to_play (gboard s))")
      show ?thesis
      proof (cases mr)
        case (Inl e)
        from assms Cons dec mv Inl have "res = Some (Inl e, s\<lparr>gboard := b\<rparr>)"
          by simp
        with that(4) [OF Cons dec mv [unfolded Inl]] show ?thesis by simp
      next
        case (Inr ok)
        note mv' = mv [unfolded Inr]
        show ?thesis
        proof (cases "alphabeta ops n (s\<lparr>gboard := b\<rparr>) (- beta) (- alpha) (d + 1)")
          case None
          from assms Cons dec mv' None have "res = None" by simp
          with that(5) [OF Cons dec mv' None] show ?thesis by simp
        next
          case (Some x)
          obtain rc s2 where x: "x = (rc, s2)" by (cases x)
          note ch = Some [unfolded x]
          note eq = for_moves_child [OF dec mv' ch, of ms]
          show ?thesis
          proof (cases "undo ops (coord_to_point ops (gboard s) row col) s2")
            case (Inl e')
            from assms eq Inl Cons have "res = Some (Inl e', s2)" by simp
            with that(6) [OF Cons dec mv' ch Inl] show ?thesis by simp
          next
            case (Inr s3)
            note un = Inr
            show ?thesis
            proof (cases "\<exists>v. rc = Inr (Val v)")
              case False
              then have nv: "\<forall>v. rc \<noteq> Inr (Val v)" by simp
              from assms eq un Cons nv have "res = Some (Inr Abort, s3)"
                by (auto split: sum.splits ab_value.splits)
              with that(7) [OF Cons dec mv' ch un nv] show ?thesis by simp
            next
              case True
              then obtain v where v: "rc = Inr (Val v)" by blast
              note ch' = ch [unfolded v]
              from assms eq un Cons v have r:
                "res = (if - v > alpha \<and> d = 0 \<and> - v \<ge> 0
                  then Some (Inr Abort, s3\<lparr>winMoves := winMoves s3 @ [m]\<rparr>)
                else if notdone s3 \<or> winMoves s3 \<noteq> [] then Some (Inr Abort, s3)
                else if - v \<ge> beta then Some (Inr (Val beta), s3)
                else for_moves ops n ms s3 (if - v > alpha then - v else alpha) beta d)"
                by simp
              show ?thesis
              proof (cases "- v > alpha \<and> d = 0 \<and> - v \<ge> 0")
                case True
                from r have "res = Some (Inr Abort, s3\<lparr>winMoves := winMoves s3 @ [m]\<rparr>)"
                  unfolding if_P [OF True] .
                with that(8) [OF Cons dec mv' ch' un] True show ?thesis by blast
              next
                case nw: False
                note r2 = r [unfolded if_not_P [OF nw]]
                show ?thesis
                proof (cases "notdone s3 \<or> winMoves s3 \<noteq> []")
                  case True
                  from r2 have "res = Some (Inr Abort, s3)"
                    unfolding if_P [OF True] .
                  with that(9) [OF Cons dec mv' ch' un nw True] show ?thesis by blast
                next
                  case False
                  note r3 = r2 [unfolded if_not_P [OF False]]
                  from False have c: "\<not> notdone s3" "winMoves s3 = []" by simp_all
                  show ?thesis
                  proof (cases "- v \<ge> beta")
                    case True
                    from r3 have "res = Some (Inr (Val beta), s3)"
                      unfolding if_P [OF True] .
                    with that(10) [OF Cons dec mv' ch' un nw c True] show ?thesis by blast
                  next
                    case False
                    then have lt: "- v < beta" by simp
                    from r3
                    have "res = for_moves ops n ms s3 (if - v > alpha then - v else alpha) beta d"
                      unfolding if_not_P [OF False] .
                    with that(11) [OF Cons dec mv' ch' un nw c lt] show ?thesis by blast
                  qed
                qed
              qed
            qed
          qed
        qed
      qed
    qed
  qed
qed

subsection \<open>The two flags along the search\<close>

lemma for_moves_flags:
  assumes child: "\<And>s alpha beta d r s'.
      alphabeta ops n s alpha beta d = Some (r, s') \<Longrightarrow>
        (notdone s \<longrightarrow> notdone s') \<and>
        (\<not> (notdone s \<and> winMoves s \<noteq> []) \<longrightarrow> \<not> (notdone s' \<and> winMoves s' \<noteq> [])) \<and>
        (\<forall>v. r = Inr (Val v) \<longrightarrow> \<not> notdone s' \<and> winMoves s' = [])"
  shows "for_moves ops n ms s alpha beta d = Some (r, s') \<Longrightarrow>
        (notdone s \<longrightarrow> notdone s') \<and>
        (\<not> (notdone s \<and> winMoves s \<noteq> []) \<longrightarrow> \<not> (notdone s' \<and> winMoves s' \<noteq> [])) \<and>
        (\<not> notdone s \<and> winMoves s = [] \<longrightarrow>
           (\<forall>v. r = Inr (Val v) \<longrightarrow> \<not> notdone s' \<and> winMoves s' = []))"
proof (induction ms arbitrary: s alpha)
  case Nil
  then show ?case by simp
next
  case (Cons m ms)
  from Cons.prems show ?case
  proof (cases rule: for_moves_cases)
    case finished
    then show ?thesis by simp
  next
    case (decode_raise m ms e)
    then show ?thesis by simp
  next
    case (decode_none m ms)
    then show ?thesis by simp
  next
    case (move_raise m ms row col e b)
    then show ?thesis by simp
  next
    case (child_none m ms row col ok b)
    then show ?thesis by simp
  next
    case (undo_raise m' ms' row col ok b rc s2 e')
    from child [OF undo_raise(4)] undo_raise(6) show ?thesis by simp
  next
    case (child_abort m' ms' row col ok b rc s2 s3)
    from child [OF child_abort(4)] undo_fields [OF child_abort(5)] child_abort(6,7)
    show ?thesis by auto
  next
    case (win m' ms' row col ok b v s2 s3)
    from child [OF win(4)] undo_fields [OF win(5)] win(9)
    show ?thesis by auto
  next
    case (flagged m' ms' row col ok b v s2 s3)
    from child [OF flagged(4)] undo_fields [OF flagged(5)] flagged(8)
    show ?thesis by auto
  next
    case (cutoff m' ms' row col ok b v s2 s3)
    from child [OF cutoff(4)] undo_fields [OF cutoff(5)] cutoff(10)
    show ?thesis by auto
  next
    case (continue m' ms' row col ok b v s2 s3)
    from continue(1) have ms: "ms' = ms" by simp
    from continue(10) [symmetric] have
      "for_moves ops n ms s3 (if alpha < - v then - v else alpha) beta d = Some (r, s')"
      unfolding ms by simp
    from Cons.IH [OF this] child [OF continue(4)] undo_fields [OF continue(5)] continue(7,8)
    show ?thesis by auto
  qed
qed

lemma alphabeta_flags:
  "alphabeta ops n s alpha beta d = Some (r, s') \<Longrightarrow>
        (notdone s \<longrightarrow> notdone s') \<and>
        (\<not> (notdone s \<and> winMoves s \<noteq> []) \<longrightarrow> \<not> (notdone s' \<and> winMoves s' \<noteq> [])) \<and>
        (\<forall>v. r = Inr (Val v) \<longrightarrow> \<not> notdone s' \<and> winMoves s' = [])"
proof (induction n arbitrary: s alpha beta d r s')
  case 0
  then show ?case by simp
next
  case (Suc n)
  from Suc.prems show ?case
  proof (cases rule: alphabeta_cases)
    case (abort k)
    then show ?thesis by auto
  next
    case (timeout k)
    then show ?thesis by simp
  next
    case (terminal k w)
    then show ?thesis by simp
  next
    case (enum_raise k e)
    then show ?thesis by simp
  next
    case (loop k ms)
    from loop(1) have k: "k = n" by simp
    from for_moves_flags [of ops n, OF Suc.IH loop(6) [unfolded k]] loop(2,3)
    show ?thesis by auto
  qed
qed

subsection \<open>Taking a move back\<close>

lemma board_contractD:
  assumes "board_contract ops" and "get_winner ops b = None"
  obtains ms where "generate_legal_moves ops b (to_play b) = Inr ms"
    "\<And>m. m \<in> set (split_space ms) \<Longrightarrow> plain_move ops b m"
    "\<And>m. m \<in> set (split_space ms) \<Longrightarrow> stone_stays ops b m"
proof (cases "generate_legal_moves ops b (to_play b)")
  case (Inl e)
  from assms(1) [unfolded board_contract_def, rule_format, OF assms(2)]
  have False unfolding Inl by simp
  then show ?thesis ..
next
  case (Inr ms)
  from assms(1) [unfolded board_contract_def, rule_format, OF assms(2)]
  have "\<forall>m \<in> set (split_space ms). plain_move ops b m \<and> stone_stays ops b m"
    unfolding Inr by simp
  with that [OF Inr] show ?thesis by blast
qed

lemma undo_contractD:
  assumes "undo_contract ops" and "get_winner ops b = None"
    and "generate_legal_moves ops b (to_play b) = Inr ms" and "m \<in> set (split_space ms)"
  shows "plain_move ops b m"
  using assms(1) [unfolded undo_contract_def, rule_format, OF assms(2)] assms(4)
  unfolding assms(3) by simp

lemma board_contract_undo: "board_contract ops \<Longrightarrow> undo_contract ops"
proof -
  assume bc: "board_contract ops"
  show "undo_contract ops"
    unfolding undo_contract_def
  proof (intro allI impI)
    fix b
    assume nw: "get_winner ops b = None"
    from board_contractD [OF bc nw] obtain ms where
      "generate_legal_moves ops b (to_play b) = Inr ms"
      "\<And>m. m \<in> set (split_space ms) \<Longrightarrow> plain_move ops b m"
      by blast
    then show "case generate_legal_moves ops b (to_play b) of Inl e \<Rightarrow> True
       | Inr ms \<Rightarrow> \<forall>m\<in>set (split_space ms). plain_move ops b m"
      by simp
  qed
qed

lemma plain_moveD:
  assumes "plain_move ops b m"
  obtains row col ok b1 where
    "move_to_coord ops m (bsize b) = Inr (Some (row, col))"
    "move ops b (coord_to_point ops b row col) (to_play b) = (Inr ok, b1)"
    "0 \<le> coord_to_point ops b row col"
    "coord_to_point ops b row col < int (length (board b))"
    "board b ! nat (coord_to_point ops b row col) = EMPTY"
    "b1 = b\<lparr>board := (board b)[nat (coord_to_point ops b row col) :=
                    board b1 ! nat (coord_to_point ops b row col)],
            to_play := to_play b1\<rparr>"
    "opponent ops (to_play b1) = to_play b"
proof -
  from assms obtain row col where dec: "move_to_coord ops m (bsize b) = Inr (Some (row, col))"
    unfolding plain_move_def by (auto split: sum.splits option.splits)
  define p where "p = coord_to_point ops b row col"
  obtain r b1 where mv: "move ops b p (to_play b) = (r, b1)"
    by (cases "move ops b p (to_play b)")
  from assms dec mv have f:
    "0 \<le> p" "p < int (length (board b))" "board b ! nat p = EMPTY" "\<not> isl r"
    "b1 = b\<lparr>board := (board b)[nat p := board b1 ! nat p], to_play := to_play b1\<rparr>"
    "opponent ops (to_play b1) = to_play b"
    unfolding plain_move_def p_def by (simp_all add: Let_def)
  from f(4) obtain ok where "r = Inr ok" by (cases r) simp_all
  with mv have mv': "move ops b p (to_play b) = (Inr ok, b1)" by simp
  show ?thesis
    using that [OF dec mv' [unfolded p_def] f(1,2,3) [unfolded p_def] f(5) [unfolded p_def] f(6)] .
qed

lemma undo_restores:
  assumes "0 \<le> p" and "p < int (length (board b))" and "board b ! nat p = EMPTY"
    and "b1 = b\<lparr>board := (board b)[nat p := c], to_play := t\<rparr>"
    and "opponent ops t = to_play b"
    and "gboard s2 = b1"
  shows "undo ops p s2 = Inr (s2\<lparr>gboard := b\<rparr>)"
proof -
  have len: "length (board b1) = length (board b)"
    unfolding assms(4) by simp
  have idx: "index_of (length (board b1)) p = Some (nat p)"
    unfolding len index_of_def using assms(1,2) by simp
  have "(board b1)[nat p := EMPTY] = board b"
    unfolding assms(4) using assms(3) list_update_id [of "board b" "nat p"] by simp
  moreover have "opponent ops (to_play b1) = to_play b"
    unfolding assms(4) using assms(5) by simp
  moreover have "b1\<lparr>board := board b, to_play := to_play b\<rparr> = b"
    unfolding assms(4) by simp
  ultimately show ?thesis
    unfolding undo_def setitem_def assms(6) idx by simp
qed

lemma undo_after_plain_move:
  assumes pm: "plain_move ops b m"
    and dec: "move_to_coord ops m (bsize b) = Inr (Some (row, col))"
    and mv: "move ops b (coord_to_point ops b row col) (to_play b) = (r, b1)"
    and s2: "gboard s2 = b1"
  shows "undo ops (coord_to_point ops b row col) s2 = Inr (s2\<lparr>gboard := b\<rparr>)"
proof -
  from pm obtain row' col' ok b1' where f:
    "move_to_coord ops m (bsize b) = Inr (Some (row', col'))"
    "move ops b (coord_to_point ops b row' col') (to_play b) = (Inr ok, b1')"
    "0 \<le> coord_to_point ops b row' col'"
    "coord_to_point ops b row' col' < int (length (board b))"
    "board b ! nat (coord_to_point ops b row' col') = EMPTY"
    "b1' = b\<lparr>board := (board b)[nat (coord_to_point ops b row' col') :=
                    board b1' ! nat (coord_to_point ops b row' col')],
            to_play := to_play b1'\<rparr>"
    "opponent ops (to_play b1') = to_play b"
    by (rule plain_moveD)
  from f(1) dec have rc: "row' = row" "col' = col" by simp_all
  from f(2) mv have b1: "b1' = b1" unfolding rc by simp
  show ?thesis
    by (rule undo_restores [OF f(3) [unfolded rc] f(4) [unfolded rc] f(5) [unfolded rc]
          f(6) [unfolded rc b1] f(7) [unfolded b1] s2])
qed

lemma plain_move_not_raise:
  assumes "plain_move ops b m"
    and "move_to_coord ops m (bsize b) = Inr (Some (row, col))"
  shows "fst (move ops b (coord_to_point ops b row col) (to_play b)) \<noteq> Inl e"
  using assms unfolding plain_move_def by (auto simp: Let_def)

lemma for_moves_board:
  assumes child: "\<And>s alpha beta d r s'.
      alphabeta ops n s alpha beta d = Some (r, s') \<Longrightarrow> gboard s' = gboard s"
  shows "for_moves ops n ms s alpha beta d = Some (r, s') \<Longrightarrow>
         \<forall>m \<in> set ms. plain_move ops (gboard s) m \<Longrightarrow> gboard s' = gboard s"
proof (induction ms arbitrary: s alpha)
  case Nil
  then show ?case by simp
next
  case (Cons m ms)
  from Cons.prems(2) have pm: "plain_move ops (gboard s) m" by simp
  from Cons.prems(1) show ?case
  proof (cases rule: for_moves_cases)
    case finished
    then show ?thesis by simp
  next
    case (decode_raise m' ms' e)
    then show ?thesis by simp
  next
    case (decode_none m' ms')
    then show ?thesis by simp
  next
    case (move_raise m' ms' row col e b)
    from move_raise(1) have "m' = m" by simp
    with plain_move_not_raise [OF pm, of row col e] move_raise(2,3)
    show ?thesis by simp
  next
    case (child_none m' ms' row col ok b)
    then show ?thesis by simp
  next
    case (undo_raise m' ms' row col ok b rc s2 e')
    from undo_raise(1) have mm: "m' = m" by simp
    from child [OF undo_raise(4)] have "gboard s2 = b" by simp
    from undo_after_plain_move [OF pm undo_raise(2) [unfolded mm] undo_raise(3) this]
      undo_raise(5)
    show ?thesis by simp
  next
    case (child_abort m' ms' row col ok b rc s2 s3)
    from child_abort(1) have mm: "m' = m" by simp
    from child [OF child_abort(4)] have "gboard s2 = b" by simp
    from undo_after_plain_move [OF pm child_abort(2) [unfolded mm] child_abort(3) this]
      child_abort(5,7)
    show ?thesis by auto
  next
    case (win m' ms' row col ok b v s2 s3)
    from win(1) have mm: "m' = m" by simp
    from child [OF win(4)] have "gboard s2 = b" by simp
    from undo_after_plain_move [OF pm win(2) [unfolded mm] win(3) this] win(5,9)
    show ?thesis by auto
  next
    case (flagged m' ms' row col ok b v s2 s3)
    from flagged(1) have mm: "m' = m" by simp
    from child [OF flagged(4)] have "gboard s2 = b" by simp
    from undo_after_plain_move [OF pm flagged(2) [unfolded mm] flagged(3) this] flagged(5,8)
    show ?thesis by auto
  next
    case (cutoff m' ms' row col ok b v s2 s3)
    from cutoff(1) have mm: "m' = m" by simp
    from child [OF cutoff(4)] have "gboard s2 = b" by simp
    from undo_after_plain_move [OF pm cutoff(2) [unfolded mm] cutoff(3) this] cutoff(5,10)
    show ?thesis by auto
  next
    case (continue m' ms' row col ok b v s2 s3)
    from continue(1) have mm: "m' = m" "ms' = ms" by simp_all
    from child [OF continue(4)] have "gboard s2 = b" by simp
    from undo_after_plain_move [OF pm continue(2) [unfolded mm] continue(3) this] continue(5)
    have g3: "gboard s3 = gboard s" by auto
    from continue(10) [symmetric] have run:
      "for_moves ops n ms s3 (if alpha < - v then - v else alpha) beta d = Some (r, s')"
      unfolding mm by simp
    from Cons.prems(2) have "\<forall>m \<in> set ms. plain_move ops (gboard s3) m"
      unfolding g3 by simp
    from Cons.IH [OF run this] g3 show ?thesis by simp
  qed
qed

lemma alphabeta_board:
  assumes uc: "undo_contract ops"
  shows "alphabeta ops n s alpha beta d = Some (r, s') \<Longrightarrow> gboard s' = gboard s"
proof (induction n arbitrary: s alpha beta d r s')
  case 0
  then show ?case by simp
next
  case (Suc n)
  from Suc.prems show ?case
  proof (cases rule: alphabeta_cases)
    case (abort k)
    then show ?thesis by simp
  next
    case (timeout k)
    then show ?thesis by simp
  next
    case (terminal k w)
    then show ?thesis by simp
  next
    case (enum_raise k e)
    then show ?thesis by simp
  next
    case (loop k ms)
    from loop(1) have k: "k = n" by simp
    have "\<forall>m \<in> set (split_space ms). plain_move ops (gboard (s\<lparr>clock := Suc (clock s)\<rparr>)) m"
      using undo_contractD [OF uc loop(4,5)] by simp
    from for_moves_board [of ops n, OF Suc.IH loop(6) [unfolded k] this]
    show ?thesis by simp
  qed
qed

subsection \<open>The search returns\<close>

lemma empties_update:
  "i < length xs \<Longrightarrow> xs ! i = EMPTY \<Longrightarrow> c \<noteq> EMPTY \<Longrightarrow>
     Suc (empties (xs[i := c])) = empties xs"
  unfolding empties_def
proof (induction xs arbitrary: i)
  case Nil
  then show ?case by simp
next
  case (Cons x xs)
  then show ?case by (cases i) auto
qed

lemma stone_staysD:
  assumes "stone_stays ops b m" and "move_to_coord ops m (bsize b) = Inr (Some (row, col))"
    and "move ops b (coord_to_point ops b row col) (to_play b) = (r, b1)"
  shows "board b1 ! nat (coord_to_point ops b row col) \<noteq> EMPTY"
  using assms unfolding stone_stays_def by (simp add: Let_def)

lemma empties_after_move:
  assumes pm: "plain_move ops b m" and st: "stone_stays ops b m"
    and dec: "move_to_coord ops m (bsize b) = Inr (Some (row, col))"
    and mv: "move ops b (coord_to_point ops b row col) (to_play b) = (r, b1)"
  shows "Suc (empties (board b1)) = empties (board b)"
proof -
  from pm obtain row' col' ok b1' where f:
    "move_to_coord ops m (bsize b) = Inr (Some (row', col'))"
    "move ops b (coord_to_point ops b row' col') (to_play b) = (Inr ok, b1')"
    "0 \<le> coord_to_point ops b row' col'"
    "coord_to_point ops b row' col' < int (length (board b))"
    "board b ! nat (coord_to_point ops b row' col') = EMPTY"
    "b1' = b\<lparr>board := (board b)[nat (coord_to_point ops b row' col') :=
                    board b1' ! nat (coord_to_point ops b row' col')],
            to_play := to_play b1'\<rparr>"
    "opponent ops (to_play b1') = to_play b"
    by (rule plain_moveD)
  from f(1) dec have rc: "row' = row" "col' = col" by simp_all
  from f(2) mv have b1: "b1' = b1" unfolding rc by simp
  define p where "p = coord_to_point ops b row col"
  have i: "nat p < length (board b)"
    using f(3,4) unfolding rc p_def by simp
  have e: "board b ! nat p = EMPTY"
    using f(5) unfolding rc p_def .
  have c: "board b1 ! nat p \<noteq> EMPTY"
    using stone_staysD [OF st dec mv] unfolding p_def .
  have "board b1 = (board b)[nat p := board b1 ! nat p]"
    using f(6) [unfolded rc b1] unfolding p_def
    by (metis GoBoard.select_convs(1) GoBoard.surjective GoBoard.update_convs(1,2))
  then have "empties (board b1) = empties ((board b)[nat p := board b1 ! nat p])"
    by simp
  with empties_update [OF i e c] show ?thesis by simp
qed

lemma for_moves_returns:
  assumes uc: "undo_contract ops"
    and child: "\<And>s alpha beta d. empties (board (gboard s)) < n \<Longrightarrow>
      \<exists>r s'. alphabeta ops n s alpha beta d = Some (Inr r, s')"
  shows "\<forall>m \<in> set ms. plain_move ops (gboard s) m \<and> stone_stays ops (gboard s) m \<Longrightarrow>
         empties (board (gboard s)) \<le> n \<Longrightarrow>
         \<exists>r s'. for_moves ops n ms s alpha beta d = Some (Inr r, s')"
proof (induction ms arbitrary: s alpha)
  case Nil
  then show ?case by simp
next
  case (Cons m ms)
  from Cons.prems(1) have pm: "plain_move ops (gboard s) m"
    and st: "stone_stays ops (gboard s) m" by simp_all
  from pm obtain row col ok b1 where f:
    "move_to_coord ops m (bsize (gboard s)) = Inr (Some (row, col))"
    "move ops (gboard s) (coord_to_point ops (gboard s) row col) (to_play (gboard s)) =
       (Inr ok, b1)"
    by (rule plain_moveD)
  from empties_after_move [OF pm st f] Cons.prems(2)
  have "empties (board (gboard (s\<lparr>gboard := b1\<rparr>))) < n" by simp
  from child [OF this, of "- beta" "- alpha" "d + 1"] obtain rc s2 where
    ch: "alphabeta ops n (s\<lparr>gboard := b1\<rparr>) (- beta) (- alpha) (d + 1) = Some (Inr rc, s2)"
    by blast
  from alphabeta_board [OF uc ch] have g2: "gboard s2 = b1" by simp
  note un = undo_after_plain_move [OF pm f g2]
  note eq = for_moves_child [OF f ch, of ms, unfolded un]
  have g3: "gboard (s2\<lparr>gboard := gboard s\<rparr>) = gboard s" by simp
  have rest: "\<exists>r s'. for_moves ops n ms (s2\<lparr>gboard := gboard s\<rparr>) a beta d = Some (Inr r, s')"
    for a
    by (rule Cons.IH) (use Cons.prems in \<open>simp_all\<close>)
  show ?case
  proof (cases rc)
    case Abort
    with eq show ?thesis by simp
  next
    case (Val v)
    with eq rest [of "if alpha < - v then - v else alpha"] show ?thesis
      by (auto split: if_splits)
  qed
qed

lemma alphabeta_returns:
  assumes bc: "board_contract ops"
  shows "empties (board (gboard s)) < n \<Longrightarrow>
         \<exists>r s'. alphabeta ops n s alpha beta d = Some (Inr r, s')"
proof (induction n arbitrary: s alpha beta d)
  case 0
  then show ?case by simp
next
  case (Suc n)
  note uc = board_contract_undo [OF bc]
  show ?case
  proof (cases "notdone s \<or> winMoves s \<noteq> []")
    case True
    from alphabeta_entry_abort [OF this] show ?thesis by blast
  next
    case False
    then have c: "\<not> notdone s" "winMoves s = []" by simp_all
    show ?thesis
    proof (cases "float_sub ops (process_time ops (clock s)) (starttime s) > real_of_int (timelimit s)")
      case True
      from alphabeta_timeout [OF c True] show ?thesis by blast
    next
      case nt: False
      show ?thesis
      proof (cases "get_winner ops (gboard s)")
        case (Some w)
        from alphabeta_terminal [OF c nt Some] show ?thesis by blast
      next
        case None
        from board_contractD [OF bc None] obtain ms where ms:
          "generate_legal_moves ops (gboard s) (to_play (gboard s)) = Inr ms"
          "\<And>m. m \<in> set (split_space ms) \<Longrightarrow> plain_move ops (gboard s) m"
          "\<And>m. m \<in> set (split_space ms) \<Longrightarrow> stone_stays ops (gboard s) m"
          by blast
        have a: "\<forall>m \<in> set (split_space ms).
            plain_move ops (gboard (s\<lparr>clock := Suc (clock s)\<rparr>)) m \<and>
            stone_stays ops (gboard (s\<lparr>clock := Suc (clock s)\<rparr>)) m"
          using ms(2,3) by simp
        have b: "empties (board (gboard (s\<lparr>clock := Suc (clock s)\<rparr>))) \<le> n"
          using Suc.prems by simp
        from for_moves_returns [of ops n, OF uc Suc.IH a b]
        show ?thesis
          unfolding alphabeta_enumerate [OF c nt None] ms(1) by simp
      qed
    qed
  qed
qed

subsection \<open>What the search leaves alone\<close>

lemma for_moves_frame:
  assumes child: "\<And>s alpha beta d r s'.
      alphabeta ops n s alpha beta d = Some (r, s') \<Longrightarrow>
        genCall s' = genCall s \<and> out s' = out s \<and> timelimit s' = timelimit s \<and>
        starttime s' = starttime s \<and> komi s' = komi s \<and> draws s' = draws s"
  shows "for_moves ops n ms s alpha beta d = Some (r, s') \<Longrightarrow>
        genCall s' = genCall s \<and> out s' = out s \<and> timelimit s' = timelimit s \<and>
        starttime s' = starttime s \<and> komi s' = komi s \<and> draws s' = draws s"
proof (induction ms arbitrary: s alpha)
  case Nil
  then show ?case by simp
next
  case (Cons m ms)
  from Cons.prems show ?case
  proof (cases rule: for_moves_cases)
    case finished
    then show ?thesis by simp
  next
    case (decode_raise m ms e)
    then show ?thesis by simp
  next
    case (decode_none m ms)
    then show ?thesis by simp
  next
    case (move_raise m ms row col e b)
    then show ?thesis by simp
  next
    case (child_none m ms row col ok b)
    then show ?thesis by simp
  next
    case (undo_raise m' ms' row col ok b rc s2 e')
    from child [OF undo_raise(4)] undo_raise(6) show ?thesis by auto
  next
    case (child_abort m' ms' row col ok b rc s2 s3)
    from child [OF child_abort(4)] undo_fields [OF child_abort(5)] child_abort(7)
    show ?thesis by auto
  next
    case (win m' ms' row col ok b v s2 s3)
    from child [OF win(4)] undo_fields [OF win(5)] win(9)
    show ?thesis by auto
  next
    case (flagged m' ms' row col ok b v s2 s3)
    from child [OF flagged(4)] undo_fields [OF flagged(5)] flagged(8)
    show ?thesis by auto
  next
    case (cutoff m' ms' row col ok b v s2 s3)
    from child [OF cutoff(4)] undo_fields [OF cutoff(5)] cutoff(10)
    show ?thesis by auto
  next
    case (continue m' ms' row col ok b v s2 s3)
    from continue(1) have ms: "ms' = ms" by simp
    from continue(10) [symmetric] have
      "for_moves ops n ms s3 (if alpha < - v then - v else alpha) beta d = Some (r, s')"
      unfolding ms by simp
    from Cons.IH [OF this] child [OF continue(4)] undo_fields [OF continue(5)]
    show ?thesis by auto
  qed
qed

lemma alphabeta_frame:
  "alphabeta ops n s alpha beta d = Some (r, s') \<Longrightarrow>
        genCall s' = genCall s \<and> out s' = out s \<and> timelimit s' = timelimit s \<and>
        starttime s' = starttime s \<and> komi s' = komi s \<and> draws s' = draws s"
proof (induction n arbitrary: s alpha beta d r s')
  case 0
  then show ?case by simp
next
  case (Suc n)
  from Suc.prems show ?case
  proof (cases rule: alphabeta_cases)
    case (abort k)
    then show ?thesis by auto
  next
    case (timeout k)
    then show ?thesis by simp
  next
    case (terminal k w)
    then show ?thesis by simp
  next
    case (enum_raise k e)
    then show ?thesis by simp
  next
    case (loop k ms)
    from loop(1) have k: "k = n" by simp
    from for_moves_frame [of ops n, OF Suc.IH loop(6) [unfolded k]]
    show ?thesis by simp
  qed
qed

subsection \<open>The response of solve\<close>

lemma stone_token: "c = BLACK \<or> c = WHITE \<Longrightarrow> getitem stone c = Inr (color_token c)"
  by (auto simp: getitem_def index_of_def stone_def color_token_def BLACK_def WHITE_def)

lemma solve_cmd_search:
  "solve_cmd ops n args s =
     (case alphabeta ops n (search_start ops s) (- 100000) 100000 0 of
           None \<Rightarrow> None
         | Some (Inl e, s2) \<Rightarrow> Some (Inl e, s2)
         | Some (Inr win, s2) \<Rightarrow>
             (if \<not> genCall s2 then
                (if winMoves s2 \<noteq> [] then
                   (case getitem stone (to_play (gboard s2)) of
                      Inl e \<Rightarrow> Some (Inl e, s2)
                    | Inr st \<Rightarrow> Some (Inr (), respond (st @ '' '' @ hd (winMoves s2)) s2))
                 else if notdone s2 then Some (Inr (), respond ''unknown'' s2)
                 else
                   (case getitem stone (opponent ops (to_play (gboard s2))) of
                      Inl e \<Rightarrow> Some (Inl e, s2)
                    | Inr st \<Rightarrow> Some (Inr (), respond st s2)))
              else Some (Inr (), s2)))"
  unfolding solve_cmd_def search_start_def Let_def by simp

lemma solve_cmd_formats:
  assumes run: "alphabeta ops n (search_start ops s) (- 100000) 100000 0 = Some (Inr v, s')"
    and gen: "\<not> genCall s"
    and tp: "to_play (gboard s') = BLACK \<or> to_play (gboard s') = WHITE"
    and op: "opponent ops (to_play (gboard s')) = BLACK \<or>
             opponent ops (to_play (gboard s')) = WHITE"
  shows "solve_cmd ops n args s =
           Some (Inr (), s'\<lparr>out := out s' @ [''= '' @ solve_response ops s' @ newline @ newline]\<rparr>)"
proof -
  from alphabeta_frame [OF run] gen have g: "\<not> genCall s'"
    by (simp add: search_start_def)
  show ?thesis
    unfolding solve_cmd_search run
    using g stone_token [OF tp] stone_token [OF op]
    by (simp add: solve_response_def respond_def)
qed

subsection \<open>The small board keeps the contract\<close>

lemma toy_enumeration:
  assumes "get_winner toy b = None"
  shows "(to_play b = 1 \<or> to_play b = 2) \<and>
    (generate_legal_moves toy b (to_play b) = Inr ''a1 a2'' \<and>
       0 < length (board b) \<and> board b ! 0 = 0 \<and> 1 < length (board b) \<and> board b ! 1 = 0
     \<or> generate_legal_moves toy b (to_play b) = Inr ''a1'' \<and>
       0 < length (board b) \<and> board b ! 0 = 0 \<and> \<not> (1 < length (board b) \<and> board b ! 1 = 0)
     \<or> generate_legal_moves toy b (to_play b) = Inr ''a2'' \<and>
       \<not> (0 < length (board b) \<and> board b ! 0 = 0) \<and> 1 < length (board b) \<and> board b ! 1 = 0)"
  using assms by (auto simp: toy_simps split: if_splits)

lemma toy_a1:
  assumes "to_play b = 1 \<or> to_play b = 2" and "0 < length (board b)" and "board b ! 0 = 0"
  shows "plain_move toy b ''a1'' \<and> stone_stays toy b ''a1''"
  using assms unfolding plain_move_def stone_stays_def
  by (auto simp: toy_simps Let_def)

lemma toy_a2:
  assumes "to_play b = 1 \<or> to_play b = 2" and "1 < length (board b)" and "board b ! 1 = 0"
  shows "plain_move toy b ''a2'' \<and> stone_stays toy b ''a2''"
  using assms unfolding plain_move_def stone_stays_def
  by (auto simp: toy_simps Let_def)

lemma toy_board_contract: "board_contract toy"
  unfolding board_contract_def
proof (intro allI impI)
  fix b :: "unit GoBoard"
  assume nw: "get_winner toy b = None"
  from toy_enumeration [OF nw] toy_a1 [of b] toy_a2 [of b]
  show "case generate_legal_moves toy b (to_play b) of Inl e \<Rightarrow> False
     | Inr ms \<Rightarrow> \<forall>m\<in>set (split_space ms). plain_move toy b m \<and> stone_stays toy b m"
    by (auto simp: split_space_def)
qed

subsection \<open>The handlers other than solve and genmove\<close>

lemma handicap_points_flags:
  "handicap_points ops ps s = (r, s') \<Longrightarrow> notdone s' = notdone s \<and> winMoves s' = winMoves s"
proof (induction ps arbitrary: s)
  case Nil
  then show ?case by simp
next
  case (Cons p ps)
  show ?case
  proof (cases "move_to_coord ops p (bsize (gboard s))")
    case (Inl e)
    with Cons.prems show ?thesis by simp
  next
    case (Inr c)
    show ?thesis
    proof (cases c)
      case None
      with Cons.prems Inr show ?thesis by simp
    next
      case (Some rc)
      obtain row col where rc: "rc = (row, col)" by (cases rc)
      obtain mr b where mv:
        "move ops (gboard s) (coord_to_point ops (gboard s) row col) BLACK = (mr, b)"
        by (cases "move ops (gboard s) (coord_to_point ops (gboard s) row col) BLACK")
      show ?thesis
      proof (cases mr)
        case (Inl e)
        with Cons.prems Inr Some rc mv show ?thesis by auto
      next
        case (Inr ok)
        with Cons.prems \<open>move_to_coord ops p (bsize (gboard s)) = Inr c\<close> Some rc mv
        have "handicap_points ops ps (s\<lparr>gboard := b\<rparr>) = (r, s')" by simp
        from Cons.IH [OF this] show ?thesis by simp
      qed
    qed
  qed
qed

lemma other_handlers_flags:
  assumes "(name, h) \<in> set (commands ops n)" and "name \<noteq> ''solve''" and "name \<noteq> ''genmove''"
    and "h args s = Some (r, s')"
  shows "notdone s' = notdone s \<and> winMoves s' = winMoves s"
proof -
  have sfh: "set_free_handicap ops args s = (r, s') \<Longrightarrow>
      notdone s' = notdone s \<and> winMoves s' = winMoves s"
  proof -
    assume a: "set_free_handicap ops args s = (r, s')"
    obtain r1 s1 where hp:
      "handicap_points ops args (s\<lparr>gboard := reset ops (gboard s) (bsize (gboard s))\<rparr>) = (r1, s1)"
      by (cases "handicap_points ops args (s\<lparr>gboard := reset ops (gboard s) (bsize (gboard s))\<rparr>)")
    from handicap_points_flags [OF hp] a hp show ?thesis
      by (cases r1) (auto simp: set_free_handicap_def respond_def)
  qed
  from assms(1,2,3) consider
      "h = (\<lambda>args s. Some (protocol_version_cmd args s))"
    | "h = (\<lambda>args s. Some (quit_cmd args s))"
    | "h = (\<lambda>args s. Some (name_cmd ops args s))"
    | "h = (\<lambda>args s. Some (boardsize_cmd ops args s))"
    | "h = (\<lambda>args s. Some (showboard_cmd ops args s))"
    | "h = (\<lambda>args s. Some (clear_board_cmd ops args s))"
    | "h = (\<lambda>args s. Some (komi_cmd ops args s))"
    | "h = (\<lambda>args s. Some (version_cmd ops args s))"
    | "h = (\<lambda>args s. Some (known_command_cmd args s))"
    | "h = (\<lambda>args s. Some (set_free_handicap ops args s))"
    | "h = (\<lambda>args s. Some (list_commands_cmd args s))"
    | "h = (\<lambda>args s. Some (play_cmd ops args s))"
    | "h = (\<lambda>args s. Some (final_score_cmd ops args s))"
    | "h = (\<lambda>args s. Some (legal_moves_cmd ops args s))"
    | "h = (\<lambda>args s. Some (timelimit_cmd ops args s))"
    unfolding commands_def by (simp only: set_simps insert_iff empty_iff prod.inject) blast
  then show ?thesis
  proof cases
    case 1
    with assms(4) show ?thesis by (auto simp: protocol_version_cmd_def respond_def)
  next
    case 2
    with assms(4) show ?thesis by (auto simp: quit_cmd_def respond_def)
  next
    case 3
    with assms(4) show ?thesis by (auto simp: name_cmd_def respond_def)
  next
    case 4
    with assms(4) show ?thesis
      by (auto simp: boardsize_cmd_def respond_def split: sum.splits)
  next
    case 5
    with assms(4) show ?thesis by (auto simp: showboard_cmd_def respond_def)
  next
    case 6
    with assms(4) show ?thesis by (auto simp: clear_board_cmd_def respond_def)
  next
    case 7
    with assms(4) show ?thesis
      by (auto simp: komi_cmd_def respond_def split: sum.splits)
  next
    case 8
    with assms(4) show ?thesis by (auto simp: version_cmd_def respond_def)
  next
    case 9
    with assms(4) show ?thesis
      by (auto simp: known_command_cmd_def respond_def split: sum.splits if_splits)
  next
    case 10
    with assms(4) sfh show ?thesis by simp
  next
    case 11
    with assms(4) show ?thesis by (auto simp: list_commands_cmd_def respond_def)
  next
    case 12
    with assms(4) show ?thesis
      by (auto simp: play_cmd_def respond_def Let_def
               split: sum.splits option.splits if_splits prod.splits)
  next
    case 13
    with assms(4) show ?thesis by (auto simp: final_score_cmd_def respond_def)
  next
    case 14
    with assms(4) show ?thesis
      by (auto simp: legal_moves_cmd_def respond_def Let_def split: sum.splits if_splits)
  next
    case 15
    with assms(4) show ?thesis
      by (auto simp: timelimit_cmd_def respond_def split: sum.splits)
  qed
qed

lemma get_cmd_flags:
  assumes "get_cmd ops n command s = Some (r, s')"
    and "\<forall>args. elements_of command \<noteq> ''solve'' # args"
    and "\<forall>args. elements_of command \<noteq> ''genmove'' # args"
  shows "notdone s' = notdone s \<and> winMoves s' = winMoves s"
proof (cases "length (strip_chars [CHR '' '', CHR 0x0D, CHR 0x09] command) = 0 \<or>
              hd command = CHR ''#''")
  case True
  then have "get_cmd ops n command s = Some (Inr (), s)"
    unfolding get_cmd_def by (cases "length (strip_chars [CHR '' '', CHR 0x0D, CHR 0x09] command) = 0")
      (simp_all only: if_True if_False simp_thms)
  with assms(1) show ?thesis by simp
next
  case ni: False
  show ?thesis
  proof (cases "elements_of command")
    case Nil
    have "get_cmd ops n command s = Some (Inr (), s)"
      unfolding get_cmd_def Nil using ni by (simp only: list.case if_False de_Morgan_disj)
    with assms(1) show ?thesis by simp
  next
    case (Cons name args)
    from assms(2,3) Cons have nm: "name \<noteq> ''solve''" "name \<noteq> ''genmove''" by simp_all
    have eq: "get_cmd ops n command s =
        (if name = ''play'' \<and>
                    (case map_of argmap name of
                       Some (k, usage) \<Rightarrow> k \<noteq> length args
                     | None \<Rightarrow> False)
                 then
                   (case getitem args 0 of
                      Inl e \<Rightarrow> Some (Inl e, s)
                    | Inr a \<Rightarrow>
                        Some (Inr (),
                          respond (''illegal move: '' @ a @ '' wrong number of arguments'') s))
                 else
                   (case arg_error name (length args) s of
                      (True, s') \<Rightarrow> Some (Inr (), s')
                    | (False, s') \<Rightarrow>
                        (case map_of (commands ops n) name of
                           Some handler \<Rightarrow> handler args s'
                         | None \<Rightarrow> Some (Inr (), error ''Unknown command'' s'))))"
      unfolding get_cmd_def Cons using ni by (simp only: list.case if_False de_Morgan_disj)
    show ?thesis
    proof (cases "name = ''play'' \<and>
                    (case map_of argmap name of
                       Some (k, usage) \<Rightarrow> k \<noteq> length args
                     | None \<Rightarrow> False)")
      case True
      from assms(1) [unfolded eq if_P [OF True]] show ?thesis
        by (auto simp: respond_def split: sum.splits)
    next
      case False
      note run = assms(1) [unfolded eq if_not_P [OF False]]
      obtain f s1 where ae: "arg_error name (length args) s = (f, s1)"
        by (cases "arg_error name (length args) s")
      then have s1: "notdone s1 = notdone s \<and> winMoves s1 = winMoves s"
        by (auto simp: arg_error_def error_def split: option.splits if_splits)
      show ?thesis
      proof (cases f)
        case True
        with run ae s1 show ?thesis by auto
      next
        case nf: False
        show ?thesis
        proof (cases "map_of (commands ops n) name")
          case None
          with run ae nf s1 show ?thesis by (auto simp: error_def)
        next
          case (Some h)
          then have "(name, h) \<in> set (commands ops n)" by (rule map_of_SomeD)
          from other_handlers_flags [OF this nm] run ae nf Some s1 show ?thesis by auto
        qed
      qed
    qed
  qed
qed

subsection \<open>Clock readings and the flag\<close>

lemma for_moves_clock:
  assumes child: "\<And>s alpha beta d r s'.
      alphabeta ops n s alpha beta d = Some (r, s') \<Longrightarrow> clock s < clock s'"
  shows "for_moves ops n ms s alpha beta d = Some (r, s') \<Longrightarrow> clock s \<le> clock s'"
proof (induction ms arbitrary: s alpha)
  case Nil
  then show ?case by simp
next
  case (Cons m ms)
  from Cons.prems show ?case
  proof (cases rule: for_moves_cases)
    case finished
    then show ?thesis by simp
  next
    case (decode_raise m ms e)
    then show ?thesis by simp
  next
    case (decode_none m ms)
    then show ?thesis by simp
  next
    case (move_raise m ms row col e b)
    then show ?thesis by simp
  next
    case (child_none m ms row col ok b)
    then show ?thesis by simp
  next
    case (undo_raise m' ms' row col ok b rc s2 e')
    from child [OF undo_raise(4)] undo_raise(6) show ?thesis by auto
  next
    case (child_abort m' ms' row col ok b rc s2 s3)
    from child [OF child_abort(4)] undo_fields [OF child_abort(5)] child_abort(7)
    show ?thesis by auto
  next
    case (win m' ms' row col ok b v s2 s3)
    from child [OF win(4)] undo_fields [OF win(5)] win(9)
    show ?thesis by auto
  next
    case (flagged m' ms' row col ok b v s2 s3)
    from child [OF flagged(4)] undo_fields [OF flagged(5)] flagged(8)
    show ?thesis by auto
  next
    case (cutoff m' ms' row col ok b v s2 s3)
    from child [OF cutoff(4)] undo_fields [OF cutoff(5)] cutoff(10)
    show ?thesis by auto
  next
    case (continue m' ms' row col ok b v s2 s3)
    from continue(1) have ms: "ms' = ms" by simp
    from continue(10) [symmetric] have
      "for_moves ops n ms s3 (if alpha < - v then - v else alpha) beta d = Some (r, s')"
      unfolding ms by simp
    from Cons.IH [OF this] child [OF continue(4)] undo_fields [OF continue(5)]
    show ?thesis by auto
  qed
qed

lemma alphabeta_clock:
  "alphabeta ops n s alpha beta d = Some (r, s') \<Longrightarrow> clock s < clock s'"
proof (induction n arbitrary: s alpha beta d r s')
  case 0
  then show ?case by simp
next
  case (Suc n)
  from Suc.prems show ?case
  proof (cases rule: alphabeta_cases)
    case (abort k)
    then show ?thesis by simp
  next
    case (timeout k)
    then show ?thesis by simp
  next
    case (terminal k w)
    then show ?thesis by simp
  next
    case (enum_raise k e)
    then show ?thesis by simp
  next
    case (loop k ms)
    from loop(1) have k: "k = n" by simp
    have "clock (s\<lparr>clock := Suc (clock s)\<rparr>) \<le> clock s'"
    proof (rule for_moves_clock)
      show "for_moves ops n (split_space ms) (s\<lparr>clock := Suc (clock s)\<rparr>) alpha beta d =
          Some (r, s')"
        by (rule loop(6) [unfolded k])
      show "alphabeta ops n s alpha beta d = Some (r, s') \<Longrightarrow> clock s < clock s'"
        for s alpha beta d r s'
        by (rule Suc.IH)
    qed
    then show ?thesis by simp
  qed
qed

lemma for_moves_late_sets_flag:
  assumes child: "\<And>s alpha beta d r s'.
      alphabeta ops n s alpha beta d = Some (r, s') \<Longrightarrow> winMoves s = [] \<Longrightarrow>
      clock s \<le> j \<Longrightarrow> j < clock s' \<Longrightarrow>
      late_reading ops (starttime s) (timelimit s) j \<Longrightarrow> notdone s'"
  shows "for_moves ops n ms s alpha beta d = Some (r, s') \<Longrightarrow> winMoves s = [] \<Longrightarrow>
      clock s \<le> j \<Longrightarrow> j < clock s' \<Longrightarrow>
      late_reading ops (starttime s) (timelimit s) j \<Longrightarrow> notdone s'"
proof (induction ms arbitrary: s alpha)
  case Nil
  then show ?case by simp
next
  case (Cons m ms)
  note w = Cons.prems(2) and lo = Cons.prems(3) and hi = Cons.prems(4) and late = Cons.prems(5)
  have in_child: "alphabeta ops n (s\<lparr>gboard := b\<rparr>) (- beta) (- alpha) (d + 1) = Some (rc, s2) \<Longrightarrow>
      j < clock s2 \<Longrightarrow> notdone s2" for b rc s2
    using child [of "s\<lparr>gboard := b\<rparr>" "- beta" "- alpha" "d + 1" rc s2] w lo late by simp
  from Cons.prems(1) show ?case
  proof (cases rule: for_moves_cases)
    case finished
    then show ?thesis by simp
  next
    case (decode_raise m ms e)
    with lo hi show ?thesis by simp
  next
    case (decode_none m ms)
    with lo hi show ?thesis by simp
  next
    case (move_raise m ms row col e b)
    with lo hi show ?thesis by simp
  next
    case (child_none m ms row col ok b)
    then show ?thesis by simp
  next
    case (undo_raise m' ms' row col ok b rc s2 e')
    from in_child [OF undo_raise(4)] hi undo_raise(6) show ?thesis by auto
  next
    case (child_abort m' ms' row col ok b rc s2 s3)
    from in_child [OF child_abort(4)] hi undo_fields [OF child_abort(5)] child_abort(7)
    show ?thesis by auto
  next
    case (win m' ms' row col ok b v s2 s3)
    from in_child [OF win(4)] hi undo_fields [OF win(5)] win(9)
    show ?thesis by auto
  next
    case (flagged m' ms' row col ok b v s2 s3)
    from in_child [OF flagged(4)] hi undo_fields [OF flagged(5)] flagged(8)
    show ?thesis by auto
  next
    case (cutoff m' ms' row col ok b v s2 s3)
    from in_child [OF cutoff(4)] hi undo_fields [OF cutoff(5)] cutoff(10)
    show ?thesis by auto
  next
    case (continue m' ms' row col ok b v s2 s3)
    from continue(1) have ms: "ms' = ms" by simp
    from continue(10) [symmetric] have run:
      "for_moves ops n ms s3 (if alpha < - v then - v else alpha) beta d = Some (r, s')"
      unfolding ms by simp
    note u = undo_fields [OF continue(5)]
    note f = alphabeta_frame [OF continue(4)]
    have "\<not> j < clock s2"
      using in_child [OF continue(4)] u continue(7) by auto
    then have lo3: "clock s3 \<le> j" using u by simp
    have late3: "late_reading ops (starttime s3) (timelimit s3) j"
      using late u f by simp
    from Cons.IH [OF run continue(8) lo3 hi late3] show ?thesis .
  qed
qed

lemma alphabeta_late_sets_flag:
  "alphabeta ops n s alpha beta d = Some (r, s') \<Longrightarrow> winMoves s = [] \<Longrightarrow>
      clock s \<le> j \<Longrightarrow> j < clock s' \<Longrightarrow>
      late_reading ops (starttime s) (timelimit s) j \<Longrightarrow> notdone s'"
proof (induction n arbitrary: s alpha beta d r s')
  case 0
  then show ?case by simp
next
  case (Suc n)
  note run = Suc.prems(1) and w = Suc.prems(2) and lo = Suc.prems(3) and hi = Suc.prems(4)
    and late = Suc.prems(5)
  show ?case
  proof (cases "notdone s")
    case True
    with alphabeta_flags [OF run] show ?thesis by simp
  next
    case nd: False
    show ?thesis
    proof (cases "float_sub ops (process_time ops (clock s)) (starttime s)
                    > real_of_int (timelimit s)")
      case True
      from run alphabeta_timeout [OF nd w True, of n alpha beta d] show ?thesis by simp
    next
      case nt: False
      with late have "j \<noteq> clock s" by (auto simp: late_reading_def)
      with lo have lo1: "Suc (clock s) \<le> j" by simp
      show ?thesis
      proof (cases "get_winner ops (gboard s)")
        case (Some x)
        from run alphabeta_terminal [OF nd w nt Some, of n alpha beta d] lo1 hi
        show ?thesis by simp
      next
        case None
        note eq = alphabeta_enumerate [OF nd w nt None, of n alpha beta d]
        show ?thesis
        proof (cases "generate_legal_moves ops (gboard s) (to_play (gboard s))")
          case (Inl e)
          from run eq lo1 hi show ?thesis unfolding Inl by simp
        next
          case (Inr ms)
          from run eq have loop:
            "for_moves ops n (split_space ms) (s\<lparr>clock := Suc (clock s)\<rparr>) alpha beta d =
               Some (r, s')"
            unfolding Inr by simp
          show ?thesis
            by (rule for_moves_late_sets_flag [of ops n j, OF Suc.IH loop])
              (use w lo1 hi late in simp_all)
        qed
      qed
    qed
  qed
qed

lemma for_moves_flag_needs_late:
  assumes child: "\<And>s alpha beta d r s'.
      alphabeta ops n s alpha beta d = Some (r, s') \<Longrightarrow> \<not> notdone s \<Longrightarrow> notdone s' \<Longrightarrow>
      \<exists>j. clock s \<le> j \<and> j < clock s' \<and> late_reading ops (starttime s) (timelimit s) j"
  shows "for_moves ops n ms s alpha beta d = Some (r, s') \<Longrightarrow> \<not> notdone s \<Longrightarrow> notdone s' \<Longrightarrow>
      \<exists>j. clock s \<le> j \<and> j < clock s' \<and> late_reading ops (starttime s) (timelimit s) j"
proof (induction ms arbitrary: s alpha)
  case Nil
  then show ?case by simp
next
  case (Cons m ms)
  note nd = Cons.prems(2) and fl = Cons.prems(3)
  have in_child: "alphabeta ops n (s\<lparr>gboard := b\<rparr>) (- beta) (- alpha) (d + 1) = Some (rc, s2) \<Longrightarrow>
      notdone s2 \<Longrightarrow>
      \<exists>j. clock s \<le> j \<and> j < clock s2 \<and> late_reading ops (starttime s) (timelimit s) j"
    for b rc s2
    using child [of "s\<lparr>gboard := b\<rparr>" "- beta" "- alpha" "d + 1" rc s2] nd by simp
  from Cons.prems(1) show ?case
  proof (cases rule: for_moves_cases)
    case finished
    then show ?thesis by simp
  next
    case (decode_raise m ms e)
    with nd fl show ?thesis by simp
  next
    case (decode_none m ms)
    with nd fl show ?thesis by simp
  next
    case (move_raise m ms row col e b)
    with nd fl show ?thesis by simp
  next
    case (child_none m ms row col ok b)
    then show ?thesis by simp
  next
    case (undo_raise m' ms' row col ok b rc s2 e')
    from undo_raise(6) fl have "notdone s2" by simp
    from in_child [OF undo_raise(4) this] undo_raise(6) show ?thesis by simp
  next
    case (child_abort m' ms' row col ok b rc s2 s3)
    note u = undo_fields [OF child_abort(5)]
    from child_abort(7) fl u have "notdone s2" by simp
    from in_child [OF child_abort(4) this] child_abort(7) u show ?thesis by simp
  next
    case (win m' ms' row col ok b v s2 s3)
    note u = undo_fields [OF win(5)]
    from win(9) fl u have "notdone s2" by simp
    from in_child [OF win(4) this] win(9) u show ?thesis by simp
  next
    case (flagged m' ms' row col ok b v s2 s3)
    note u = undo_fields [OF flagged(5)]
    from flagged(8) fl u have "notdone s2" by simp
    from in_child [OF flagged(4) this] flagged(8) u show ?thesis by simp
  next
    case (cutoff m' ms' row col ok b v s2 s3)
    note u = undo_fields [OF cutoff(5)]
    from cutoff(10) fl u have "notdone s2" by simp
    from in_child [OF cutoff(4) this] cutoff(10) u show ?thesis by simp
  next
    case (continue m' ms' row col ok b v s2 s3)
    from continue(1) have ms: "ms' = ms" by simp
    from continue(10) [symmetric] have run:
      "for_moves ops n ms s3 (if alpha < - v then - v else alpha) beta d = Some (r, s')"
      unfolding ms by simp
    note u = undo_fields [OF continue(5)]
    note f = alphabeta_frame [OF continue(4)]
    from alphabeta_clock [OF continue(4)] u have c3: "clock s \<le> clock s3" by simp
    from Cons.IH [OF run continue(7) fl] obtain j where
      j: "clock s3 \<le> j" "j < clock s'" "late_reading ops (starttime s3) (timelimit s3) j"
      by blast
    from j(3) u f have "late_reading ops (starttime s) (timelimit s) j" by simp
    with j(1,2) c3 show ?thesis by (intro exI [of _ j]) simp
  qed
qed

lemma alphabeta_flag_needs_late:
  "alphabeta ops n s alpha beta d = Some (r, s') \<Longrightarrow> \<not> notdone s \<Longrightarrow> notdone s' \<Longrightarrow>
      \<exists>j. clock s \<le> j \<and> j < clock s' \<and> late_reading ops (starttime s) (timelimit s) j"
proof (induction n arbitrary: s alpha beta d r s')
  case 0
  then show ?case by simp
next
  case (Suc n)
  note run = Suc.prems(1) and nd = Suc.prems(2) and fl = Suc.prems(3)
  show ?case
  proof (cases "winMoves s = []")
    case False
    then have "notdone s \<or> winMoves s \<noteq> []" by simp
    from run alphabeta_entry_abort [OF this, of ops n alpha beta d] nd fl
    show ?thesis by simp
  next
    case w: True
    show ?thesis
    proof (cases "float_sub ops (process_time ops (clock s)) (starttime s)
                    > real_of_int (timelimit s)")
      case True
      then have l: "late_reading ops (starttime s) (timelimit s) (clock s)"
        by (simp add: late_reading_def)
      from run alphabeta_timeout [OF nd w True, of n alpha beta d]
      have "clock s' = Suc (clock s)" by auto
      with l show ?thesis by (intro exI [of _ "clock s"]) simp
    next
      case nt: False
      show ?thesis
      proof (cases "get_winner ops (gboard s)")
        case (Some x)
        from run alphabeta_terminal [OF nd w nt Some, of n alpha beta d] nd fl
        show ?thesis by auto
      next
        case None
        note eq = alphabeta_enumerate [OF nd w nt None, of n alpha beta d]
        show ?thesis
        proof (cases "generate_legal_moves ops (gboard s) (to_play (gboard s))")
          case (Inl e)
          from run eq nd fl show ?thesis unfolding Inl by auto
        next
          case (Inr ms)
          from run eq have loop:
            "for_moves ops n (split_space ms) (s\<lparr>clock := Suc (clock s)\<rparr>) alpha beta d =
               Some (r, s')"
            unfolding Inr by simp
          have "\<exists>j. clock (s\<lparr>clock := Suc (clock s)\<rparr>) \<le> j \<and> j < clock s' \<and>
              late_reading ops (starttime (s\<lparr>clock := Suc (clock s)\<rparr>))
                (timelimit (s\<lparr>clock := Suc (clock s)\<rparr>)) j"
          proof (rule for_moves_flag_needs_late)
            show "for_moves ops n (split_space ms) (s\<lparr>clock := Suc (clock s)\<rparr>) alpha beta d =
               Some (r, s')"
              by (rule loop)
            show "\<not> notdone (s\<lparr>clock := Suc (clock s)\<rparr>)" using nd by simp
            show "notdone s'" by (rule fl)
            show "alphabeta ops n s alpha beta d = Some (r, s') \<Longrightarrow> \<not> notdone s \<Longrightarrow>
                notdone s' \<Longrightarrow>
                \<exists>j. clock s \<le> j \<and> j < clock s' \<and>
                  late_reading ops (starttime s) (timelimit s) j"
              for s alpha beta d r s'
              by (rule Suc.IH)
          qed
          then obtain j where "Suc (clock s) \<le> j" "j < clock s'"
            "late_reading ops (starttime s) (timelimit s) j"
            by auto
          then show ?thesis by (intro exI [of _ j]) simp
        qed
      qed
    qed
  qed
qed

subsection \<open>The flag after solve and genmove\<close>

lemma solve_cmd_state:
  assumes "solve_cmd ops n args s = Some (r, s')"
  obtains r2 s2 where
    "alphabeta ops n (search_start ops s) (- 100000) 100000 0 = Some (r2, s2)"
    "notdone s' = notdone s2" "winMoves s' = winMoves s2" "clock s' = clock s2"
    "gboard s' = gboard s2" "timelimit s' = timelimit s2" "draws s' = draws s2"
    "genCall s' = genCall s2"
proof (cases "alphabeta ops n (search_start ops s) (- 100000) 100000 0")
  case None
  with assms show ?thesis unfolding solve_cmd_search by simp
next
  case (Some x)
  obtain r2 s2 where x: "x = (r2, s2)" by (cases x)
  note run = Some [unfolded x]
  from assms [unfolded solve_cmd_search run]
  have "notdone s' = notdone s2 \<and> winMoves s' = winMoves s2 \<and> clock s' = clock s2 \<and>
    gboard s' = gboard s2 \<and> timelimit s' = timelimit s2 \<and> draws s' = draws s2 \<and>
    genCall s' = genCall s2"
    by (auto simp: respond_def split: sum.splits if_splits)
  with that [OF run] show ?thesis by blast
qed

lemma solve_cmd_flag:
  assumes "solve_cmd ops n args s = Some (r, s')"
  shows "notdone s' \<longleftrightarrow>
     (\<exists>j. Suc (clock s) \<le> j \<and> j < clock s' \<and>
          late_reading ops (process_time ops (clock s)) (timelimit s) j)"
proof -
  from assms obtain r2 s2 where
    run: "alphabeta ops n (search_start ops s) (- 100000) 100000 0 = Some (r2, s2)"
    and e: "notdone s' = notdone s2" "clock s' = clock s2"
    by (rule solve_cmd_state)
  have st: "\<not> notdone (search_start ops s)" "winMoves (search_start ops s) = []"
    "clock (search_start ops s) = Suc (clock s)"
    "starttime (search_start ops s) = process_time ops (clock s)"
    "timelimit (search_start ops s) = timelimit s"
    by (simp_all add: search_start_def)
  show ?thesis
  proof
    assume "notdone s'"
    then have "notdone s2" using e by simp
    from alphabeta_flag_needs_late [OF run st(1) this]
    show "\<exists>j. Suc (clock s) \<le> j \<and> j < clock s' \<and>
          late_reading ops (process_time ops (clock s)) (timelimit s) j"
      unfolding st e .
  next
    assume "\<exists>j. Suc (clock s) \<le> j \<and> j < clock s' \<and>
          late_reading ops (process_time ops (clock s)) (timelimit s) j"
    then obtain j where j: "Suc (clock s) \<le> j" "j < clock s2"
      "late_reading ops (process_time ops (clock s)) (timelimit s) j"
      using e by auto
    have "notdone s2"
      by (rule alphabeta_late_sets_flag [OF run st(2)]) (use j st in simp_all)
    then show "notdone s'" using e by simp
  qed
qed

subsection \<open>The list of winning moves and the scratch state of the handlers\<close>

lemma for_moves_short_list:
  assumes child: "\<And>s alpha beta d r s'.
      alphabeta ops n s alpha beta d = Some (r, s') \<Longrightarrow> winMoves s = [] \<Longrightarrow>
      winMoves s' = [] \<or> (\<exists>m. winMoves s' = [m])"
  shows "for_moves ops n ms s alpha beta d = Some (r, s') \<Longrightarrow> winMoves s = [] \<Longrightarrow>
      winMoves s' = [] \<or> (\<exists>m. winMoves s' = [m])"
proof (induction ms arbitrary: s alpha)
  case Nil
  then show ?case by simp
next
  case (Cons m ms)
  note w = Cons.prems(2)
  have in_child: "alphabeta ops n (s\<lparr>gboard := b\<rparr>) (- beta) (- alpha) (d + 1) = Some (rc, s2) \<Longrightarrow>
      winMoves s2 = [] \<or> (\<exists>m. winMoves s2 = [m])" for b rc s2
    using child [of "s\<lparr>gboard := b\<rparr>" "- beta" "- alpha" "d + 1" rc s2] w by simp
  from Cons.prems(1) show ?case
  proof (cases rule: for_moves_cases)
    case finished
    then show ?thesis by simp
  next
    case (decode_raise m ms e)
    with w show ?thesis by simp
  next
    case (decode_none m ms)
    with w show ?thesis by simp
  next
    case (move_raise m ms row col e b)
    with w show ?thesis by simp
  next
    case (child_none m ms row col ok b)
    then show ?thesis by simp
  next
    case (undo_raise m' ms' row col ok b rc s2 e')
    from in_child [OF undo_raise(4)] undo_raise(6) show ?thesis by simp
  next
    case (child_abort m' ms' row col ok b rc s2 s3)
    from in_child [OF child_abort(4)] undo_fields [OF child_abort(5)] child_abort(7)
    show ?thesis by simp
  next
    case (win m' ms' row col ok b v s2 s3)
    from alphabeta_flags [OF win(4)] undo_fields [OF win(5)] win(9)
    show ?thesis by simp
  next
    case (flagged m' ms' row col ok b v s2 s3)
    from in_child [OF flagged(4)] undo_fields [OF flagged(5)] flagged(8)
    show ?thesis by simp
  next
    case (cutoff m' ms' row col ok b v s2 s3)
    from cutoff(8,10) show ?thesis by simp
  next
    case (continue m' ms' row col ok b v s2 s3)
    from continue(1) have ms: "ms' = ms" by simp
    from continue(10) [symmetric] have run:
      "for_moves ops n ms s3 (if alpha < - v then - v else alpha) beta d = Some (r, s')"
      unfolding ms by simp
    from Cons.IH [OF run continue(8)] show ?thesis .
  qed
qed

lemma alphabeta_short_list:
  "alphabeta ops n s alpha beta d = Some (r, s') \<Longrightarrow> winMoves s = [] \<Longrightarrow>
      winMoves s' = [] \<or> (\<exists>m. winMoves s' = [m])"
proof (induction n arbitrary: s alpha beta d r s')
  case 0
  then show ?case by simp
next
  case (Suc n)
  from Suc.prems(1) show ?case
  proof (cases rule: alphabeta_cases)
    case (abort k)
    with Suc.prems(2) show ?thesis by simp
  next
    case (timeout k)
    then show ?thesis by simp
  next
    case (terminal k w)
    then show ?thesis by simp
  next
    case (enum_raise k e)
    then show ?thesis by simp
  next
    case (loop k ms)
    from loop(1) have k: "k = n" by simp
    show ?thesis
    proof (rule for_moves_short_list)
      show "for_moves ops n (split_space ms) (s\<lparr>clock := Suc (clock s)\<rparr>) alpha beta d =
          Some (r, s')"
        by (rule loop(6) [unfolded k])
      show "winMoves (s\<lparr>clock := Suc (clock s)\<rparr>) = []" using loop(3) by simp
      show "alphabeta ops n s alpha beta d = Some (r, s') \<Longrightarrow> winMoves s = [] \<Longrightarrow>
          winMoves s' = [] \<or> (\<exists>m. winMoves s' = [m])" for s alpha beta d r s'
        by (rule Suc.IH)
    qed
  qed
qed

lemma solve_cmd_independent:
  "solve_cmd ops k args (s\<lparr>winMoves := w, notdone := b\<rparr>) = solve_cmd ops k args s"
  by (simp add: solve_cmd_def)

lemma solve_cmd_short_list:
  assumes "solve_cmd ops n args s = Some (r, s')"
  shows "winMoves s' = [] \<or> (\<exists>m. winMoves s' = [m])"
proof -
  from assms obtain r2 s2 where
    run: "alphabeta ops n (search_start ops s) (- 100000) 100000 0 = Some (r2, s2)"
    and e: "winMoves s' = winMoves s2"
    by (rule solve_cmd_state)
  have "winMoves (search_start ops s) = []" by (simp add: search_start_def)
  from alphabeta_short_list [OF run this] e show ?thesis by simp
qed

lemma solve_cmd_returns:
  assumes bc: "board_contract ops" and e: "empties (board (gboard s)) < n"
  shows "\<exists>r s'. solve_cmd ops n args s = Some (r, s')"
proof -
  have "empties (board (gboard (search_start ops s))) < n"
    using e by (simp add: search_start_def)
  from alphabeta_returns [OF bc this, of "- 100000" 100000 0] obtain v s2 where
    "alphabeta ops n (search_start ops s) (- 100000) 100000 0 = Some (Inr v, s2)"
    by blast
  then show ?thesis
    unfolding solve_cmd_search by (auto split: sum.splits)
qed

lemma chosen_move_fields:
  "chosen_move ops c s = (r, s') \<Longrightarrow>
     notdone s' = notdone s \<and> clock s' = clock s \<and> winMoves s' = winMoves s \<and>
     gboard s' = gboard s \<and> timelimit s' = timelimit s"
  unfolding chosen_move_def
  by (auto simp: Let_def split: if_splits sum.splits option.splits)

lemma genmove_cmd_independent:
  "genmove_cmd ops k args (s\<lparr>notdone := b\<rparr>) = genmove_cmd ops k args s"
  by (simp add: genmove_cmd_def)

lemma genmove_cmd_resign:
  assumes "color_to_int ops (lower a) = Inr c" and "get_winner ops (gboard s) = Some x"
  shows "genmove_cmd ops k (a # args) s =
           Some (Inr (), respond ''resign'' (s\<lparr>notdone := False\<rparr>))"
  using assms by (simp add: genmove_cmd_def getitem_def index_of_def)

lemma genmove_cmd_bad_colour:
  assumes "color_to_int ops (lower a) = Inl e" and "is_Exception e"
  shows "genmove_cmd ops k (a # args) s =
           Some (Inr (), respond (''Error: '' @ str_exn e) (s\<lparr>notdone := False\<rparr>))"
  using assms by (simp add: genmove_cmd_def getitem_def index_of_def)

lemma genmove_cmd_list_independent:
  assumes "color_to_int ops (lower a) = Inr c" and "get_winner ops (gboard s) = None"
  shows "genmove_cmd ops k (a # args) (s\<lparr>winMoves := w\<rparr>) = genmove_cmd ops k (a # args) s"
  using assms by (simp add: genmove_cmd_def getitem_def index_of_def)

text \<open>The run of genmove once it reaches the solver.\<close>

lemma genmove_cmd_after_solve:
  assumes "color_to_int ops (lower a) = Inr c" and "get_winner ops (gboard s) = None"
    and "solve_cmd ops k (a # args)
           (s\<lparr>notdone := False, winMoves := [], genCall := True,
              gboard := (gboard s)\<lparr>to_play := (if a = ''b'' then BLACK else WHITE)\<rparr>\<rparr>) =
         Some (r4, s4)"
  shows "\<exists>r s'. genmove_cmd ops k (a # args) s = Some (r, s') \<and>
           notdone s' = notdone s4 \<and> clock s' = clock s4 \<and> winMoves s' = winMoves s4"
proof (cases r4)
  case (Inl e)
  with assms show ?thesis
    by (cases "is_Exception e")
       (simp_all add: genmove_cmd_def getitem_def index_of_def respond_def)
next
  case (Inr u)
  obtain rm s5 where ch: "chosen_move ops c (s4\<lparr>genCall := False\<rparr>) = (rm, s5)"
    by (cases "chosen_move ops c (s4\<lparr>genCall := False\<rparr>)")
  from chosen_move_fields [OF ch] have f:
    "notdone s5 = notdone s4" "clock s5 = clock s4" "winMoves s5 = winMoves s4"
    by simp_all
  show ?thesis
  proof (cases rm)
    case (Inl e)
    with assms Inr ch f show ?thesis
      by (cases "is_Exception e")
         (simp_all add: genmove_cmd_def getitem_def index_of_def respond_def)
  next
    case mv: (Inr p)
    show ?thesis
    proof (cases "check_legal ops (gboard s5) p c")
      case False
      with assms Inr ch f mv show ?thesis
        by (simp add: genmove_cmd_def getitem_def index_of_def respond_def)
    next
      case True
      obtain rr b where m: "move ops (gboard s5) p c = (rr, b)"
        by (cases "move ops (gboard s5) p c")
      show ?thesis
      proof (cases rr)
        case (Inl e)
        with assms \<open>r4 = Inr u\<close> ch f mv True m show ?thesis
          by (cases "is_Exception e")
             (simp_all add: genmove_cmd_def getitem_def index_of_def respond_def)
      next
        case (Inr ok)
        with assms \<open>r4 = Inr u\<close> ch f mv True m show ?thesis
          by (simp add: genmove_cmd_def getitem_def index_of_def respond_def)
      qed
    qed
  qed
qed

lemma genmove_cmd_early:
  assumes "args = [] \<or> (\<exists>a rest e. args = a # rest \<and> color_to_int ops (lower a) = Inl e) \<or>
           (\<exists>a rest c x. args = a # rest \<and> color_to_int ops (lower a) = Inr c \<and>
              get_winner ops (gboard s) = Some x)"
  shows "\<exists>r s'. genmove_cmd ops k args s = Some (r, s') \<and> \<not> notdone s' \<and> clock s' = clock s \<and>
           winMoves s' = winMoves s"
  using assms
proof (elim disjE exE conjE)
  assume "args = []"
  then show ?thesis
    by (simp add: genmove_cmd_def getitem_def index_of_def respond_def)
next
  fix a rest e
  assume "args = a # rest" "color_to_int ops (lower a) = Inl e"
  then show ?thesis
    by (cases "is_Exception e")
       (simp_all add: genmove_cmd_def getitem_def index_of_def respond_def)
next
  fix a rest c x
  assume "args = a # rest" "color_to_int ops (lower a) = Inr c"
    "get_winner ops (gboard s) = Some x"
  then show ?thesis
    by (simp add: genmove_cmd_def getitem_def index_of_def respond_def)
qed

lemma genmove_cmd_none:
  assumes "color_to_int ops (lower a) = Inr c" and "get_winner ops (gboard s) = None"
    and "solve_cmd ops k (a # args)
           (s\<lparr>notdone := False, winMoves := [], genCall := True,
              gboard := (gboard s)\<lparr>to_play := (if a = ''b'' then BLACK else WHITE)\<rparr>\<rparr>) = None"
  shows "genmove_cmd ops k (a # args) s = None"
  using assms by (simp add: genmove_cmd_def getitem_def index_of_def)

lemma genmove_cmd_flag:
  assumes run: "genmove_cmd ops k args s = Some (r, s')"
  shows "notdone s' \<longleftrightarrow>
     (\<exists>j. Suc (clock s) \<le> j \<and> j < clock s' \<and>
          late_reading ops (process_time ops (clock s)) (timelimit s) j)"
proof (cases "args = [] \<or> (\<exists>a rest e. args = a # rest \<and> color_to_int ops (lower a) = Inl e) \<or>
           (\<exists>a rest c x. args = a # rest \<and> color_to_int ops (lower a) = Inr c \<and>
              get_winner ops (gboard s) = Some x)")
  case True
  from genmove_cmd_early [OF True, of k] run
  have "\<not> notdone s'" "clock s' = clock s" by auto
  then show ?thesis by auto
next
  case False
  then obtain a rest c where a: "args = a # rest" "color_to_int ops (lower a) = Inr c"
    "get_winner ops (gboard s) = None"
    by (cases args; cases "color_to_int ops (lower (hd args))"; cases "get_winner ops (gboard s)")
       auto
  let ?s3 = "s\<lparr>notdone := False, winMoves := [], genCall := True,
              gboard := (gboard s)\<lparr>to_play := (if a = ''b'' then BLACK else WHITE)\<rparr>\<rparr>"
  show ?thesis
  proof (cases "solve_cmd ops k (a # rest) ?s3")
    case None
    from genmove_cmd_none [OF a(2,3) None] run a(1) show ?thesis by simp
  next
    case (Some x)
    obtain r4 s4 where x: "x = (r4, s4)" by (cases x)
    note sol = Some [unfolded x]
    from genmove_cmd_after_solve [OF a(2,3) sol] run a(1)
    have e: "notdone s' = notdone s4" "clock s' = clock s4" by auto
    from solve_cmd_flag [OF sol] show ?thesis unfolding e by simp
  qed
qed

lemma genmove_cmd_returns:
  assumes bc: "board_contract ops" and e: "empties (board (gboard s)) < k"
  shows "\<exists>r s'. genmove_cmd ops k args s = Some (r, s')"
proof (cases "args = [] \<or> (\<exists>a rest e. args = a # rest \<and> color_to_int ops (lower a) = Inl e) \<or>
           (\<exists>a rest c x. args = a # rest \<and> color_to_int ops (lower a) = Inr c \<and>
              get_winner ops (gboard s) = Some x)")
  case True
  from genmove_cmd_early [OF True, of k] show ?thesis by blast
next
  case False
  then obtain a rest c where a: "args = a # rest" "color_to_int ops (lower a) = Inr c"
    "get_winner ops (gboard s) = None"
    by (cases args; cases "color_to_int ops (lower (hd args))"; cases "get_winner ops (gboard s)")
       auto
  let ?s3 = "s\<lparr>notdone := False, winMoves := [], genCall := True,
              gboard := (gboard s)\<lparr>to_play := (if a = ''b'' then BLACK else WHITE)\<rparr>\<rparr>"
  have "empties (board (gboard ?s3)) < k" using e by simp
  from solve_cmd_returns [OF bc this, of "a # rest"] obtain r4 s4 where
    sol: "solve_cmd ops k (a # rest) ?s3 = Some (r4, s4)" by blast
  from genmove_cmd_after_solve [OF a(2,3) sol] show ?thesis unfolding a(1) by blast
qed

section \<open>The claims about the solver\<close>

text \<open>
  Claim C4, as the code has it. A call of \<^verbatim>\<open>alphabeta\<close> that finds the time-exceeded
  flag set or the list of winning moves non-empty reads the clock in its first line, makes
  no use of the reading and returns the abort sentinel at once: the connection it leaves is
  the one it found, board and both flags included, but for the count of clock readings.
  The search never clears the flag, and a command other than \<^verbatim>\<open>solve\<close> and
  \<^verbatim>\<open>genmove\<close> changes neither the flag nor the list. The result of \<^verbatim>\<open>solve_cmd\<close>
  depends neither on the flag nor on the list it finds, the result of \<^verbatim>\<open>genmove_cmd\<close>
  not on the flag; after either of them the flag is set exactly when one of the clock
  readings of its own run was beyond the limit, and after \<^verbatim>\<open>solve_cmd\<close> the list holds
  at most one move. Once the colour decodes and the board reports no winner, the result of
  \<^verbatim>\<open>genmove_cmd\<close> does not depend on the list it finds either; on its two earlier
  returns (a position already decided, a colour that does not decode) it clears the flag
  and leaves the list as it found it. Both handlers return on every board implementation
  that keeps \<open>board_contract\<close>, once the depth bound exceeds the number of empty points.
\<close>

theorem abort_at_entry_and_flag_until_reset:
  "(notdone s \<or> winMoves s \<noteq> [] \<longrightarrow>
      alphabeta ops (Suc n) s alpha beta d = Some (Inr Abort, s\<lparr>clock := Suc (clock s)\<rparr>)) \<and>
   (alphabeta ops k s alpha beta d = Some (r, s') \<and> notdone s \<longrightarrow> notdone s') \<and>
   (for_moves ops k ms s alpha beta d = Some (r, s') \<and> notdone s \<longrightarrow> notdone s') \<and>
   (get_cmd ops k command s = Some (r', s') \<and>
    (\<forall>args. elements_of command \<noteq> ''solve'' # args) \<and>
    (\<forall>args. elements_of command \<noteq> ''genmove'' # args) \<longrightarrow>
      notdone s' = notdone s \<and> winMoves s' = winMoves s) \<and>
   (\<forall>w b. solve_cmd ops k args (s\<lparr>winMoves := w, notdone := b\<rparr>) = solve_cmd ops k args s) \<and>
   (solve_cmd ops k args s = Some (r', s') \<longrightarrow>
      (notdone s' \<longleftrightarrow>
         (\<exists>j. Suc (clock s) \<le> j \<and> j < clock s' \<and>
              late_reading ops (process_time ops (clock s)) (timelimit s) j)) \<and>
      (winMoves s' = [] \<or> (\<exists>m. winMoves s' = [m]))) \<and>
   (board_contract ops \<and> empties (board (gboard s)) < k \<longrightarrow>
      (\<exists>r s'. solve_cmd ops k args s = Some (r, s')) \<and>
      (\<exists>r s'. genmove_cmd ops k args s = Some (r, s'))) \<and>
   (\<forall>b. genmove_cmd ops k args (s\<lparr>notdone := b\<rparr>) = genmove_cmd ops k args s) \<and>
   (genmove_cmd ops k args s = Some (r', s') \<longrightarrow>
      (notdone s' \<longleftrightarrow>
         (\<exists>j. Suc (clock s) \<le> j \<and> j < clock s' \<and>
              late_reading ops (process_time ops (clock s)) (timelimit s) j))) \<and>
   (color_to_int ops (lower a) = Inr c \<and> get_winner ops (gboard s) = None \<longrightarrow>
      (\<forall>w. genmove_cmd ops k (a # args) (s\<lparr>winMoves := w\<rparr>) =
           genmove_cmd ops k (a # args) s)) \<and>
   (color_to_int ops (lower a) = Inr c \<and> get_winner ops (gboard s) = Some x \<longrightarrow>
      genmove_cmd ops k (a # args) s =
        Some (Inr (), (s\<lparr>notdone := False\<rparr>)\<lparr>out := out s @ [''= resign'' @ newline @ newline]\<rparr>)) \<and>
   (color_to_int ops (lower a) = Inl e \<and> is_Exception e \<longrightarrow>
      genmove_cmd ops k (a # args) s =
        Some (Inr (), (s\<lparr>notdone := False\<rparr>)\<lparr>out := out s @
          [''= Error: '' @ str_exn e @ newline @ newline]\<rparr>))"
proof (intro conjI impI allI)
  assume "notdone s \<or> winMoves s \<noteq> []"
  then show "alphabeta ops (Suc n) s alpha beta d = Some (Inr Abort, s\<lparr>clock := Suc (clock s)\<rparr>)"
    by (rule alphabeta_entry_abort)
next
  assume "alphabeta ops k s alpha beta d = Some (r, s') \<and> notdone s"
  with alphabeta_flags [of ops k s alpha beta d r s'] show "notdone s'" by simp
next
  assume a: "for_moves ops k ms s alpha beta d = Some (r, s') \<and> notdone s"
  from for_moves_flags [of ops k ms s alpha beta d r s', OF alphabeta_flags] a
  show "notdone s'" by simp
next
  assume a: "get_cmd ops k command s = Some (r', s') \<and>
    (\<forall>args. elements_of command \<noteq> ''solve'' # args) \<and>
    (\<forall>args. elements_of command \<noteq> ''genmove'' # args)"
  from get_cmd_flags [of ops k command s r' s'] a
  show "notdone s' = notdone s" and "winMoves s' = winMoves s" by simp_all
next
  fix w b
  show "solve_cmd ops k args (s\<lparr>winMoves := w, notdone := b\<rparr>) = solve_cmd ops k args s"
    by (rule solve_cmd_independent)
next
  assume a: "solve_cmd ops k args s = Some (r', s')"
  show "notdone s' \<longleftrightarrow>
         (\<exists>j. Suc (clock s) \<le> j \<and> j < clock s' \<and>
              late_reading ops (process_time ops (clock s)) (timelimit s) j)"
    by (rule solve_cmd_flag [OF a])
  show "winMoves s' = [] \<or> (\<exists>m. winMoves s' = [m])"
    by (rule solve_cmd_short_list [OF a])
next
  assume a: "board_contract ops \<and> empties (board (gboard s)) < k"
  then have bc: "board_contract ops" and e: "empties (board (gboard s)) < k" by simp_all
  show "\<exists>r s'. solve_cmd ops k args s = Some (r, s')"
    by (rule solve_cmd_returns [OF bc e])
  show "\<exists>r s'. genmove_cmd ops k args s = Some (r, s')"
    by (rule genmove_cmd_returns [OF bc e])
next
  fix b
  show "genmove_cmd ops k args (s\<lparr>notdone := b\<rparr>) = genmove_cmd ops k args s"
    by (rule genmove_cmd_independent)
next
  assume a: "genmove_cmd ops k args s = Some (r', s')"
  show "notdone s' \<longleftrightarrow>
         (\<exists>j. Suc (clock s) \<le> j \<and> j < clock s' \<and>
              late_reading ops (process_time ops (clock s)) (timelimit s) j)"
    by (rule genmove_cmd_flag [OF a])
next
  fix w
  assume a: "color_to_int ops (lower a) = Inr c \<and> get_winner ops (gboard s) = None"
  then show "genmove_cmd ops k (a # args) (s\<lparr>winMoves := w\<rparr>) =
           genmove_cmd ops k (a # args) s"
    by (simp add: genmove_cmd_list_independent)
next
  assume a: "color_to_int ops (lower a) = Inr c \<and> get_winner ops (gboard s) = Some x"
  then show "genmove_cmd ops k (a # args) s =
        Some (Inr (), (s\<lparr>notdone := False\<rparr>)\<lparr>out := out s @ [''= resign'' @ newline @ newline]\<rparr>)"
    by (simp add: genmove_cmd_resign respond_def)
next
  assume a: "color_to_int ops (lower a) = Inl e \<and> is_Exception e"
  then show "genmove_cmd ops k (a # args) s =
        Some (Inr (), (s\<lparr>notdone := False\<rparr>)\<lparr>out := out s @
          [''= Error: '' @ str_exn e @ newline @ newline]\<rparr>)"
    by (simp add: genmove_cmd_bad_colour respond_def)
qed

lemma stale_abort_run:
  "alphabeta toy 1
     ((init_conn (toy_board [0, 2] 1))\<lparr>timelimit := 9, notdone := True, winMoves := [''zz'']\<rparr>)
     (- 100000) 100000 0 =
   Some (Inr Abort,
     (init_conn (toy_board [0, 2] 1))\<lparr>timelimit := 9, notdone := True, winMoves := [''zz''],
        clock := 1\<rparr>)"
  by code_simp

lemma fresh_solve_run:
  "solve_cmd toy 3 [] ((init_conn (toy_board [0, 2] 1))\<lparr>timelimit := 9\<rparr>) =
     Some (Inr (), (init_conn (toy_board [0, 2] 1))\<lparr>timelimit := 9, clock := 3,
        winMoves := [''a1''], out := [''= b a1'' @ newline @ newline]\<rparr>)"
  by code_simp

lemma fresh_genmove_run:
  "genmove_cmd toy 3 [''b''] ((init_conn (toy_board [0, 2] 1))\<lparr>timelimit := 9\<rparr>) =
     Some (Inr (), (init_conn (toy_board [1, 2] 2))\<lparr>timelimit := 9, clock := 3,
        winMoves := [''a1''], out := [''= a1'' @ newline @ newline]\<rparr>)"
  by code_simp

lemma stale_resign_run:
  "get_cmd toy 1 ''genmove b''
     ((init_conn (toy_board [1, 2] 1))\<lparr>notdone := True, winMoves := [''a2'']\<rparr>) =
   Some (Inr (), (init_conn (toy_board [1, 2] 1))\<lparr>notdone := False, winMoves := [''a2''],
      out := [''= resign'' @ newline @ newline]\<rparr>)"
  by code_simp

lemma stale_colour_run:
  "get_cmd toy 1 ''genmove x''
     ((init_conn (toy_board [0, 0] 1))\<lparr>notdone := True, winMoves := [''a2'']\<rparr>) =
   Some (Inr (), (init_conn (toy_board [0, 0] 1))\<lparr>notdone := False, winMoves := [''a2''],
      out := [''= Error: wrong color'' @ newline @ newline]\<rparr>)"
  by code_simp

lemma stale_play_run:
  "get_cmd toy 3 ''play b a1''
     ((init_conn (toy_board [0, 0] 1))\<lparr>notdone := True, winMoves := [''a2'']\<rparr>) =
   Some (Inr (), (init_conn (toy_board [1, 0] 2))\<lparr>notdone := True, winMoves := [''a2''],
      out := [''= '' @ newline @ newline]\<rparr>)"
  by code_simp

text \<open>
  A connection left with the flag set and a stale list, on the two-point board: the search
  aborts at entry, \<^verbatim>\<open>solve\<close> and \<^verbatim>\<open>genmove b\<close> answer as on a fresh connection
  (no reading of the run is late, the flag ends cleared, the stale move is gone),
  \<^verbatim>\<open>genmove b\<close> on a decided board and \<^verbatim>\<open>genmove x\<close> clear the flag and keep the
  list, and \<^verbatim>\<open>play b a1\<close> keeps both.
\<close>

theorem abort_at_entry_and_flag_until_reset_witness:
  "alphabeta toy 1
     ((init_conn (toy_board [0, 2] 1))\<lparr>timelimit := 9, notdone := True, winMoves := [''zz'']\<rparr>)
     (- 100000) 100000 0 =
   Some (Inr Abort,
     (init_conn (toy_board [0, 2] 1))\<lparr>timelimit := 9, notdone := True, winMoves := [''zz''],
        clock := 1\<rparr>) \<and>
   solve_cmd toy 3 []
     ((init_conn (toy_board [0, 2] 1))\<lparr>timelimit := 9, notdone := True, winMoves := [''zz'']\<rparr>) =
   Some (Inr (), (init_conn (toy_board [0, 2] 1))\<lparr>timelimit := 9, clock := 3,
        winMoves := [''a1''], out := [''= b a1'' @ newline @ newline]\<rparr>) \<and>
   \<not> (\<exists>j. Suc 0 \<le> j \<and> j < 3 \<and> late_reading toy (process_time toy 0) 9 j) \<and>
   genmove_cmd toy 3 [''b'']
     ((init_conn (toy_board [0, 2] 1))\<lparr>timelimit := 9, notdone := True, winMoves := [''zz'']\<rparr>) =
   Some (Inr (), (init_conn (toy_board [1, 2] 2))\<lparr>timelimit := 9, clock := 3,
        winMoves := [''a1''], out := [''= a1'' @ newline @ newline]\<rparr>) \<and>
   (\<exists>r s'. solve_cmd toy 3 []
      ((init_conn (toy_board [0, 2] 1))\<lparr>timelimit := 9, notdone := True,
         winMoves := [''zz'']\<rparr>) = Some (r, s')) \<and>
   genmove_cmd toy 1 [''b'']
     ((init_conn (toy_board [1, 2] 1))\<lparr>notdone := True, winMoves := [''a2'']\<rparr>) =
   Some (Inr (), (init_conn (toy_board [1, 2] 1))\<lparr>notdone := False, winMoves := [''a2''],
      out := [''= resign'' @ newline @ newline]\<rparr>) \<and>
   genmove_cmd toy 1 [''x'']
     ((init_conn (toy_board [0, 0] 1))\<lparr>notdone := True, winMoves := [''a2'']\<rparr>) =
   Some (Inr (), (init_conn (toy_board [0, 0] 1))\<lparr>notdone := False, winMoves := [''a2''],
      out := [''= Error: wrong color'' @ newline @ newline]\<rparr>) \<and>
   get_cmd toy 3 ''play b a1''
     ((init_conn (toy_board [0, 0] 1))\<lparr>notdone := True, winMoves := [''a2'']\<rparr>) =
   Some (Inr (), (init_conn (toy_board [1, 0] 2))\<lparr>notdone := True, winMoves := [''a2''],
      out := [''= '' @ newline @ newline]\<rparr>) \<and>
   notdone ((init_conn (toy_board [1, 0] 2))\<lparr>notdone := True, winMoves := [''a2''],
      out := [''= '' @ newline @ newline]\<rparr>) =
   notdone ((init_conn (toy_board [0, 0] 1))\<lparr>notdone := True, winMoves := [''a2'']\<rparr>) \<and>
   winMoves ((init_conn (toy_board [1, 0] 2))\<lparr>notdone := True, winMoves := [''a2''],
      out := [''= '' @ newline @ newline]\<rparr>) =
   winMoves ((init_conn (toy_board [0, 0] 1))\<lparr>notdone := True, winMoves := [''a2'']\<rparr>)"
proof -
  let ?open = "(init_conn (toy_board [0, 0] 1))\<lparr>notdone := True, winMoves := [''a2'']\<rparr>"
  let ?played = "(init_conn (toy_board [1, 0] 2))\<lparr>notdone := True, winMoves := [''a2''],
      out := [''= '' @ newline @ newline]\<rparr>"
  have bad: "color_to_int toy (lower ''x'') = Inl (ValueError ''wrong color'')" by code_simp
  have exc: "is_Exception (ValueError ''wrong color'')" by simp
  have e1: "\<forall>args. elements_of ''play b a1'' \<noteq> ''solve'' # args"
    unfolding toy_elements_play_b_a1 by simp
  have e2: "\<forall>args. elements_of ''play b a1'' \<noteq> ''genmove'' # args"
    unfolding toy_elements_play_b_a1 by simp
  note t5 = abort_at_entry_and_flag_until_reset
    [where s = ?open and ops = toy and k = 1 and a = "''x''" and args = "[]"
       and e = "ValueError ''wrong color''"]
  note t6 = abort_at_entry_and_flag_until_reset
    [where s = ?open and ops = toy and k = 3 and command = "''play b a1''" and r' = "Inr ()"
       and s' = ?played]
  note colour = t5 [THEN conjunct2, THEN conjunct2, THEN conjunct2, THEN conjunct2,
    THEN conjunct2, THEN conjunct2, THEN conjunct2, THEN conjunct2, THEN conjunct2,
    THEN conjunct2, THEN conjunct2, rule_format, OF conjI, OF bad exc]
  note other = t6 [THEN conjunct2, THEN conjunct2, THEN conjunct2, THEN conjunct1,
    rule_format, OF conjI, OF stale_play_run conjI, OF e1 e2]
  have a7: "genmove_cmd toy 1 [''x''] ?open =
      Some (Inr (), (?open\<lparr>notdone := False\<rparr>)\<lparr>out := out ?open @
          [''= Error: '' @ str_exn (ValueError ''wrong color'') @ newline @ newline]\<rparr>)"
    by (rule colour)
  have r7: "(?open\<lparr>notdone := False\<rparr>)\<lparr>out := out ?open @
          [''= Error: '' @ str_exn (ValueError ''wrong color'') @ newline @ newline]\<rparr> =
      (init_conn (toy_board [0, 0] 1))\<lparr>notdone := False, winMoves := [''a2''],
        out := [''= Error: wrong color'' @ newline @ newline]\<rparr>"
    by (simp add: init_conn_def)
  let ?fresh = "(init_conn (toy_board [0, 2] 1))\<lparr>timelimit := 9\<rparr>"
  let ?stale = "(init_conn (toy_board [0, 2] 1))\<lparr>timelimit := 9, notdone := True,
     winMoves := [''zz'']\<rparr>"
  let ?done = "(init_conn (toy_board [1, 2] 1))\<lparr>notdone := True, winMoves := [''a2'']\<rparr>"
  let ?end = "(init_conn (toy_board [0, 2] 1))\<lparr>timelimit := 9, clock := 3,
        winMoves := [''a1''], out := [''= b a1'' @ newline @ newline]\<rparr>"
  let ?listed = "(init_conn (toy_board [0, 2] 1))\<lparr>timelimit := 9, winMoves := [''zz'']\<rparr>"
  have st: "?fresh\<lparr>winMoves := [''zz''], notdone := True\<rparr> = ?stale"
    "?listed\<lparr>notdone := True\<rparr> = ?stale"
    by simp_all
  have fl: "notdone ?stale \<or> winMoves ?stale \<noteq> []" by simp
  have e: "empties (board (gboard ?stale)) < 3" by (simp add: empties_def toy_simps)
  have col: "color_to_int toy (lower ''b'') = Inr 1" by code_simp
  have win: "get_winner toy (gboard ?done) = Some 2" by code_simp
  have nowin: "get_winner toy (gboard ?fresh) = None" by code_simp
  have nd: "\<not> notdone ?end" by (simp add: init_conn_def)
  note t1 = abort_at_entry_and_flag_until_reset
    [where s = ?stale and ops = toy and n = 0 and alpha = "- 100000" and beta = 100000
       and d = 0 and k = 3 and args = "[]"]
  note t2 = abort_at_entry_and_flag_until_reset
    [where s = ?fresh and ops = toy and k = 3 and args = "[]" and r' = "Inr ()" and s' = ?end
       and a = "''b''" and c = 1]
  note t3 = abort_at_entry_and_flag_until_reset
    [where s = ?listed and ops = toy and k = 3 and args = "[''b'']"]
  note t4 = abort_at_entry_and_flag_until_reset
    [where s = ?done and ops = toy and k = 1 and a = "''b''" and args = "[]" and c = 1
       and x = 2]
  note entry = t1 [THEN conjunct1, rule_format, OF fl]
  note rest2 = t2 [THEN conjunct2, THEN conjunct2, THEN conjunct2, THEN conjunct2]
  note indep = rest2 [THEN conjunct1, rule_format]
  note after = rest2 [THEN conjunct2, THEN conjunct1, rule_format, OF fresh_solve_run,
    THEN conjunct1]
  note list2 = rest2 [THEN conjunct2, THEN conjunct2, THEN conjunct2, THEN conjunct2,
    THEN conjunct2, THEN conjunct1, rule_format, OF conjI, OF col nowin]
  note gen3 = t3 [THEN conjunct2, THEN conjunct2, THEN conjunct2, THEN conjunct2,
    THEN conjunct2, THEN conjunct2, THEN conjunct2, THEN conjunct1, rule_format]
  note resign = t4 [THEN conjunct2, THEN conjunct2, THEN conjunct2, THEN conjunct2,
    THEN conjunct2, THEN conjunct2, THEN conjunct2, THEN conjunct2, THEN conjunct2,
    THEN conjunct2, THEN conjunct1, rule_format, OF conjI, OF col win]
  note returns = t1 [THEN conjunct2, THEN conjunct2, THEN conjunct2, THEN conjunct2,
    THEN conjunct2, THEN conjunct2, THEN conjunct1, rule_format, OF conjI,
    OF toy_board_contract e, THEN conjunct1]
  have a1: "alphabeta toy 1 ?stale (- 100000) 100000 0 =
      Some (Inr Abort, ?stale\<lparr>clock := Suc (clock ?stale)\<rparr>)"
    using entry by (simp only: One_nat_def)
  have a2: "solve_cmd toy 3 [] ?stale = solve_cmd toy 3 [] ?fresh"
    using indep [where w = "[''zz'']" and b = True] unfolding st .
  have a3: "\<not> (\<exists>j. Suc (clock ?fresh) \<le> j \<and> j < clock ?end \<and>
      late_reading toy (process_time toy (clock ?fresh)) (timelimit ?fresh) j)"
    using after nd by (simp only: simp_thms)
  have a4: "genmove_cmd toy 3 [''b''] ?stale = genmove_cmd toy 3 [''b''] ?fresh"
    using gen3 [where b = True] list2 [where w = "[''zz'']"] unfolding st by (rule trans)
  have a5: "genmove_cmd toy 1 [''b''] ?done =
      Some (Inr (), (?done\<lparr>notdone := False\<rparr>)\<lparr>out := out ?done @
         [''= resign'' @ newline @ newline]\<rparr>)"
    by (rule resign)
  have a6: "\<exists>r s'. solve_cmd toy 3 [] ?stale = Some (r, s')"
    by (rule returns)
  have f: "clock ?stale = 0" "clock ?fresh = 0" "clock ?end = 3" "timelimit ?fresh = 9"
    "out ?done = []"
    by (simp_all add: init_conn_def)
  have r: "?stale\<lparr>clock := Suc 0\<rparr> =
      (init_conn (toy_board [0, 2] 1))\<lparr>timelimit := 9, notdone := True, winMoves := [''zz''],
        clock := 1\<rparr>"
    "(?done\<lparr>notdone := False\<rparr>)\<lparr>out := [] @ [''= resign'' @ newline @ newline]\<rparr> =
      (init_conn (toy_board [1, 2] 1))\<lparr>notdone := False, winMoves := [''a2''],
        out := [''= resign'' @ newline @ newline]\<rparr>"
    by simp_all
  show ?thesis
    using a1 [unfolded f r] a2 [unfolded fresh_solve_run] a3 [unfolded f]
      a4 [unfolded fresh_genmove_run] a5 [unfolded f r] a6 a7 [unfolded r7]
      stale_play_run other [THEN conjunct1] other [THEN conjunct2]
    by (intro conjI)
qed

text \<open>
  Claim C4 as stated fails on two points. The frame that aborts at entry has sampled the
  clock: the count of readings goes from 0 to 1. And \<^verbatim>\<open>genmove\<close> does not always empty
  the list of winning moves: on a decided position, and on a colour that does not decode,
  it clears the flag and answers with the stale list still in place.
\<close>

theorem abort_at_entry_and_flag_until_reset_counterexample:
  "clock ((init_conn (toy_board [0, 2] 1))\<lparr>timelimit := 9, notdone := True,
            winMoves := [''zz'']\<rparr>) = 0 \<and>
   alphabeta toy 1
     ((init_conn (toy_board [0, 2] 1))\<lparr>timelimit := 9, notdone := True, winMoves := [''zz'']\<rparr>)
     (- 100000) 100000 0 =
   Some (Inr Abort,
     (init_conn (toy_board [0, 2] 1))\<lparr>timelimit := 9, notdone := True, winMoves := [''zz''],
        clock := 1\<rparr>) \<and>
   get_cmd toy 1 ''genmove b''
     ((init_conn (toy_board [1, 2] 1))\<lparr>notdone := True, winMoves := [''a2'']\<rparr>) =
   Some (Inr (), (init_conn (toy_board [1, 2] 1))\<lparr>notdone := False, winMoves := [''a2''],
      out := [''= resign'' @ newline @ newline]\<rparr>) \<and>
   get_cmd toy 1 ''genmove x''
     ((init_conn (toy_board [0, 0] 1))\<lparr>notdone := True, winMoves := [''a2'']\<rparr>) =
   Some (Inr (), (init_conn (toy_board [0, 0] 1))\<lparr>notdone := False, winMoves := [''a2''],
      out := [''= Error: wrong color'' @ newline @ newline]\<rparr>)"
proof -
  have "clock ((init_conn (toy_board [0, 2] 1))\<lparr>timelimit := 9, notdone := True,
            winMoves := [''zz'']\<rparr>) = 0"
    by (simp add: init_conn_def)
  with stale_abort_run stale_resign_run stale_colour_run show ?thesis
    by (simp only: simp_thms)
qed

text \<open>
  Claim C8, as the code has it. When the board reports a winner as \<^verbatim>\<open>solve\<close> is
  invoked, and the first clock reading of the search is not beyond the time limit, the
  response is the colour token of the opponent of the side to move; this is the winner's
  token when the winner reported is that opponent. The response is then not
  \<^verbatim>\<open>unknown\<close>.
\<close>

theorem solve_on_decided_position:
  assumes win: "get_winner ops (gboard s) = Some w"
    and opp: "opponent ops (to_play (gboard s)) = w"
    and col: "w = BLACK \<or> w = WHITE"
    and gen: "\<not> genCall s"
    and time: "float_sub ops (process_time ops (Suc (clock s))) (process_time ops (clock s))
                 \<le> real_of_int (timelimit s)"
  shows "solve_cmd ops (Suc n) args s =
           Some (Inr (), (search_start ops s)\<lparr>clock := Suc (Suc (clock s)),
             out := out s @ [''= '' @ color_token w @ newline @ newline]\<rparr>)"
proof -
  let ?s0 = "search_start ops s"
  have c: "\<not> notdone ?s0" "winMoves ?s0 = []"
    by (simp_all add: search_start_def)
  have t: "\<not> float_sub ops (process_time ops (clock ?s0)) (starttime ?s0) > real_of_int (timelimit ?s0)"
    using time by (simp add: search_start_def)
  have w: "get_winner ops (gboard ?s0) = Some w"
    using win by (simp add: search_start_def)
  note run = alphabeta_terminal [OF c t w, of n "- 100000" 100000 0]
  have tok: "getitem stone (opponent ops (to_play (gboard s))) = Inr (color_token w)"
    using stone_token [OF col] opp by simp
  show ?thesis
    unfolding solve_cmd_search run
    using gen tok by (simp add: search_start_def respond_def)
qed

text \<open>The full two-point board with Black to move: White has won.\<close>

theorem solve_on_decided_position_witness:
  "solve_cmd toy 1 [] (init_conn (toy_board [1, 2] 1)) =
     Some (Inr (), (init_conn (toy_board [1, 2] 1))\<lparr>clock := 2,
             out := [''= w'' @ newline @ newline]\<rparr>)"
proof -
  let ?s = "init_conn (toy_board [1, 2] 1)"
  have win: "get_winner toy (gboard ?s) = Some 2" by code_simp
  have opp: "opponent toy (to_play (gboard ?s)) = 2" by code_simp
  have col: "(2::int) = BLACK \<or> (2::int) = WHITE" by (simp add: WHITE_def)
  have gen: "\<not> genCall ?s" by (simp add: init_conn_def)
  have time: "float_sub toy (process_time toy (Suc (clock ?s))) (process_time toy (clock ?s))
                 \<le> real_of_int (timelimit ?s)"
    by (simp add: toy_def init_conn_def)
  from solve_on_decided_position [OF win opp col gen time, of 0 "[]"]
  show ?thesis
    by (simp add: search_start_def init_conn_def color_token_def BLACK_def toy_def)
qed

lemma decided_timelimit_run:
  "get_cmd toy 1 ''timelimit 0'' (init_conn (toy_board [1, 2] 1)) =
     Some (Inr (), (init_conn (toy_board [1, 2] 1))\<lparr>timelimit := 0,
             out := [''= '' @ newline @ newline]\<rparr>)"
  by code_simp

lemma decided_unknown_run:
  "get_cmd toy 1 ''solve'' ((init_conn (toy_board [1, 2] 1))\<lparr>timelimit := 0,
             out := [''= '' @ newline @ newline]\<rparr>) =
     Some (Inr (), (init_conn (toy_board [1, 2] 1))\<lparr>timelimit := 0, notdone := True, clock := 2,
             out := [''= '' @ newline @ newline, ''= unknown'' @ newline @ newline]\<rparr>)"
  by code_simp

lemma decided_loser_run:
  "get_winner mover_wins_toy (gboard (init_conn (toy_board [1, 2] 1))) = Some BLACK \<and>
   get_cmd mover_wins_toy 1 ''solve'' (init_conn (toy_board [1, 2] 1)) =
     Some (Inr (), (init_conn (toy_board [1, 2] 1))\<lparr>clock := 2,
             out := [''= w'' @ newline @ newline]\<rparr>)"
  by code_simp

text \<open>
  Claim C8 as stated fails twice. After \<^verbatim>\<open>timelimit 0\<close>, which
  \<^verbatim>\<open>timelimit_cmd\<close> accepts, \<^verbatim>\<open>solve\<close> on the decided position answers
  \<^verbatim>\<open>unknown\<close>: the time check of \<^verbatim>\<open>alphabeta\<close> stands before the winner
  check. And on a board that reports the side to move (Black) as the winner the response is
  \<^verbatim>\<open>w\<close>: \<^verbatim>\<open>solve_cmd\<close> ignores the value the search returns.
\<close>

theorem solve_on_decided_position_counterexample:
  "get_winner toy (gboard (init_conn (toy_board [1, 2] 1))) = Some WHITE \<and>
   get_cmd toy 1 ''timelimit 0'' (init_conn (toy_board [1, 2] 1)) =
     Some (Inr (), (init_conn (toy_board [1, 2] 1))\<lparr>timelimit := 0,
             out := [''= '' @ newline @ newline]\<rparr>) \<and>
   get_cmd toy 1 ''solve'' ((init_conn (toy_board [1, 2] 1))\<lparr>timelimit := 0,
             out := [''= '' @ newline @ newline]\<rparr>) =
     Some (Inr (), (init_conn (toy_board [1, 2] 1))\<lparr>timelimit := 0, notdone := True, clock := 2,
             out := [''= '' @ newline @ newline, ''= unknown'' @ newline @ newline]\<rparr>) \<and>
   get_winner mover_wins_toy (gboard (init_conn (toy_board [1, 2] 1))) = Some BLACK \<and>
   get_cmd mover_wins_toy 1 ''solve'' (init_conn (toy_board [1, 2] 1)) =
     Some (Inr (), (init_conn (toy_board [1, 2] 1))\<lparr>clock := 2,
             out := [''= w'' @ newline @ newline]\<rparr>)"
proof -
  have "get_winner toy (gboard (init_conn (toy_board [1, 2] 1))) = Some WHITE"
    by code_simp
  with decided_timelimit_run decided_unknown_run decided_loser_run show ?thesis
    by (simp only: simp_thms)
qed

text \<open>
  Claim C9, as the code has it. On a position with no winner whose enumeration of legal
  moves is the empty string, a call of \<^verbatim>\<open>alphabeta\<close> does not return a value as
  for a terminal position: \<^verbatim>\<open>''.split(' ')\<close> is \<^verbatim>\<open>['']\<close>, so the loop runs
  once, on the empty move string, and when the decoder raises on it (or returns nothing,
  so that subscripting its result raises), the exception leaves the call, with the board
  unchanged.
\<close>

theorem empty_enumeration_is_decoded:
  assumes "\<not> notdone s" and "winMoves s = []"
    and "float_sub ops (process_time ops (clock s)) (starttime s) \<le> real_of_int (timelimit s)"
    and "get_winner ops (gboard s) = None"
    and "generate_legal_moves ops (gboard s) (to_play (gboard s)) = Inr []"
  shows "alphabeta ops (Suc n) s alpha beta d =
           for_moves ops n [[]] (s\<lparr>clock := Suc (clock s)\<rparr>) alpha beta d \<and>
         (\<forall>e. move_to_coord ops [] (bsize (gboard s)) = Inl e \<longrightarrow>
            alphabeta ops (Suc n) s alpha beta d = Some (Inl e, s\<lparr>clock := Suc (clock s)\<rparr>)) \<and>
         (move_to_coord ops [] (bsize (gboard s)) = Inr None \<longrightarrow>
            alphabeta ops (Suc n) s alpha beta d =
              Some (Inl (TypeError ''NoneType object is not subscriptable''), s\<lparr>clock := Suc (clock s)\<rparr>))"
proof -
  have t: "\<not> float_sub ops (process_time ops (clock s)) (starttime s) > real_of_int (timelimit s)"
    using assms(3) by simp
  have sp: "split_space [] = [[]]"
    by (simp add: split_space_def)
  have eq: "alphabeta ops (Suc n) s alpha beta d =
           for_moves ops n [[]] (s\<lparr>clock := Suc (clock s)\<rparr>) alpha beta d"
    by (simp only: alphabeta_enumerate [OF assms(1,2) t assms(4)] assms(5) sum.case sp)
  have "move_to_coord ops [] (bsize (gboard s)) = Inl e \<Longrightarrow>
          for_moves ops n [[]] (s\<lparr>clock := Suc (clock s)\<rparr>) alpha beta d =
            Some (Inl e, s\<lparr>clock := Suc (clock s)\<rparr>)" for e
    by simp
  moreover have "move_to_coord ops [] (bsize (gboard s)) = Inr None \<Longrightarrow>
          for_moves ops n [[]] (s\<lparr>clock := Suc (clock s)\<rparr>) alpha beta d =
            Some (Inl (TypeError ''NoneType object is not subscriptable''), s\<lparr>clock := Suc (clock s)\<rparr>)"
    by simp
  ultimately show ?thesis using eq by simp
qed

lemma silent_run:
  "alphabeta silent_toy 1 (search_start silent_toy (init_conn (toy_board [1, 2] 1)))
      (- 100000) 100000 0 =
     Some (Inl (ValueError ''wrong coordinate''),
           (init_conn (toy_board [1, 2] 1))\<lparr>clock := 2\<rparr>)"
  by code_simp

text \<open>The full two-point board under a winner detection that never fires.\<close>

theorem empty_enumeration_is_decoded_witness:
  "alphabeta silent_toy 1 (search_start silent_toy (init_conn (toy_board [1, 2] 1)))
      (- 100000) 100000 0 =
     Some (Inl (ValueError ''wrong coordinate''),
           (init_conn (toy_board [1, 2] 1))\<lparr>clock := 2\<rparr>)"
proof -
  let ?s = "search_start silent_toy (init_conn (toy_board [1, 2] 1))"
  have a: "\<not> notdone ?s" "winMoves ?s = []"
    by (simp_all add: search_start_def)
  have b: "float_sub silent_toy (process_time silent_toy (clock ?s)) (starttime ?s) \<le> real_of_int (timelimit ?s)"
    by (simp add: search_start_def silent_toy_def toy_def init_conn_def)
  have c: "get_winner silent_toy (gboard ?s) = None"
    by (simp add: silent_toy_def)
  have d: "generate_legal_moves silent_toy (gboard ?s) (to_play (gboard ?s)) = Inr []"
    by code_simp
  have e: "move_to_coord silent_toy [] (bsize (gboard ?s)) = Inl (ValueError ''wrong coordinate'')"
    by code_simp
  from empty_enumeration_is_decoded [OF a b c d, of 0 "- 100000" 100000 0] e
  show ?thesis
    by (simp add: search_start_def init_conn_def silent_toy_def toy_def)
qed

text \<open>
  Claim C9 as stated fails: on that board the root call raises \<^verbatim>\<open>ValueError\<close>,
  and so does \<^verbatim>\<open>solve\<close>, with no response.
\<close>

theorem empty_enumeration_counterexample:
  "get_winner silent_toy (toy_board [1, 2] 1) = None \<and>
   generate_legal_moves silent_toy (toy_board [1, 2] 1) 1 = Inr [] \<and>
   alphabeta silent_toy 1 (search_start silent_toy (init_conn (toy_board [1, 2] 1)))
      (- 100000) 100000 0 =
     Some (Inl (ValueError ''wrong coordinate''),
           (init_conn (toy_board [1, 2] 1))\<lparr>clock := 2\<rparr>) \<and>
   get_cmd silent_toy 1 ''solve'' (init_conn (toy_board [1, 2] 1)) =
     Some (Inl (ValueError ''wrong coordinate''),
           (init_conn (toy_board [1, 2] 1))\<lparr>clock := 2\<rparr>)"
proof -
  have "get_winner silent_toy (toy_board [1, 2] 1) = None"
    by (simp add: silent_toy_def)
  moreover have "generate_legal_moves silent_toy (toy_board [1, 2] 1) 1 = Inr []"
    by code_simp
  moreover have "get_cmd silent_toy 1 ''solve'' (init_conn (toy_board [1, 2] 1)) =
     Some (Inl (ValueError ''wrong coordinate''),
           (init_conn (toy_board [1, 2] 1))\<lparr>clock := 2\<rparr>)"
    by code_simp
  ultimately show ?thesis using silent_run by (simp only: simp_thms)
qed

text \<open>
  Claim C1. Outside generation mode, when the search returns to \<^verbatim>\<open>solve_cmd\<close> and
  the side to move and its opponent are Black and White, the one response written is
  \<open>solve_response\<close> of the connection the search leaves: colour of the side to move and
  first winning move, or the opponent's colour when the flag is unset, or
  \<^verbatim>\<open>unknown\<close>. And the search does return, with the board as it found it, on every
  board implementation that keeps \<open>board_contract\<close>, once the depth bound exceeds the
  number of empty points.
\<close>

theorem solve_cmd_response:
  assumes gen: "\<not> genCall s"
  shows "(\<forall>v s'. alphabeta ops n (search_start ops s) (- 100000) 100000 0 = Some (Inr v, s') \<and>
            (to_play (gboard s') = BLACK \<or> to_play (gboard s') = WHITE) \<and>
            (opponent ops (to_play (gboard s')) = BLACK \<or>
             opponent ops (to_play (gboard s')) = WHITE) \<longrightarrow>
            solve_cmd ops n args s =
              Some (Inr (), s'\<lparr>out := out s' @
                [''= '' @ solve_response ops s' @ newline @ newline]\<rparr>)) \<and>
         (board_contract ops \<and> empties (board (gboard s)) < n \<longrightarrow>
            (\<exists>v s'. alphabeta ops n (search_start ops s) (- 100000) 100000 0 = Some (Inr v, s') \<and>
                    gboard s' = gboard s))"
proof (intro conjI allI impI)
  fix v s'
  assume a: "alphabeta ops n (search_start ops s) (- 100000) 100000 0 = Some (Inr v, s') \<and>
            (to_play (gboard s') = BLACK \<or> to_play (gboard s') = WHITE) \<and>
            (opponent ops (to_play (gboard s')) = BLACK \<or>
             opponent ops (to_play (gboard s')) = WHITE)"
  then have run: "alphabeta ops n (search_start ops s) (- 100000) 100000 0 = Some (Inr v, s')"
    and tp: "to_play (gboard s') = BLACK \<or> to_play (gboard s') = WHITE"
    and op: "opponent ops (to_play (gboard s')) = BLACK \<or>
             opponent ops (to_play (gboard s')) = WHITE"
    by simp_all
  show "solve_cmd ops n args s =
      Some (Inr (), s'\<lparr>out := out s' @ [''= '' @ solve_response ops s' @ newline @ newline]\<rparr>)"
    by (rule solve_cmd_formats [OF run gen tp op])
next
  assume b: "board_contract ops \<and> empties (board (gboard s)) < n"
  then have bc: "board_contract ops" and e: "empties (board (gboard (search_start ops s))) < n"
    by (simp_all add: search_start_def)
  from alphabeta_returns [OF bc e, of "- 100000" 100000 0] obtain v s' where
    run: "alphabeta ops n (search_start ops s) (- 100000) 100000 0 = Some (Inr v, s')"
    by blast
  from alphabeta_board [OF board_contract_undo [OF bc] run]
  have "gboard s' = gboard s" by (simp add: search_start_def)
  with run show "\<exists>v s'. alphabeta ops n (search_start ops s) (- 100000) 100000 0 =
      Some (Inr v, s') \<and> gboard s' = gboard s"
    by blast
qed

lemma toy_win_run:
  "alphabeta toy 3 (search_start toy ((init_conn (toy_board [0, 2] 1))\<lparr>timelimit := 9\<rparr>))
      (- 100000) 100000 0 =
     Some (Inr Abort, (init_conn (toy_board [0, 2] 1))\<lparr>timelimit := 9, clock := 3,
        winMoves := [''a1'']\<rparr>)"
  by code_simp

lemma toy_loss_run:
  "alphabeta toy 3 (search_start toy ((init_conn (toy_board [0, 0] 1))\<lparr>timelimit := 9\<rparr>))
      (- 100000) 100000 0 =
     Some (Inr (Val (- 1)), (init_conn (toy_board [0, 0] 1))\<lparr>timelimit := 9, clock := 6\<rparr>)"
  by code_simp

lemma toy_unknown_run:
  "alphabeta toy 3 (search_start toy (init_conn (toy_board [0, 0] 1)))
      (- 100000) 100000 0 =
     Some (Inr Abort, (init_conn (toy_board [0, 0] 1))\<lparr>clock := 3, notdone := True\<rparr>)"
  by code_simp

text \<open>A win, a loss and a timeout on the two-point board.\<close>

theorem solve_cmd_response_witness:
  "solve_cmd toy 3 [] ((init_conn (toy_board [0, 2] 1))\<lparr>timelimit := 9\<rparr>) =
     Some (Inr (), (init_conn (toy_board [0, 2] 1))\<lparr>timelimit := 9, clock := 3,
        winMoves := [''a1''], out := [''= b a1'' @ newline @ newline]\<rparr>) \<and>
   solve_cmd toy 3 [] ((init_conn (toy_board [0, 0] 1))\<lparr>timelimit := 9\<rparr>) =
     Some (Inr (), (init_conn (toy_board [0, 0] 1))\<lparr>timelimit := 9, clock := 6,
        out := [''= w'' @ newline @ newline]\<rparr>) \<and>
   solve_cmd toy 3 [] (init_conn (toy_board [0, 0] 1)) =
     Some (Inr (), (init_conn (toy_board [0, 0] 1))\<lparr>clock := 3, notdone := True,
        out := [''= unknown'' @ newline @ newline]\<rparr>) \<and>
   (\<exists>v s'. alphabeta toy 3 (search_start toy (init_conn (toy_board [0, 0] 1)))
              (- 100000) 100000 0 = Some (Inr v, s') \<and>
           gboard s' = gboard (init_conn (toy_board [0, 0] 1)))"
proof -
  let ?w = "(init_conn (toy_board [0, 2] 1))\<lparr>timelimit := 9\<rparr>"
  let ?l = "(init_conn (toy_board [0, 0] 1))\<lparr>timelimit := 9\<rparr>"
  let ?u = "init_conn (toy_board [0, 0] 1)"
  have g: "\<not> genCall ?w" "\<not> genCall ?l" "\<not> genCall ?u"
    by (simp_all add: init_conn_def)
  have e: "empties (board (gboard ?u)) < 3"
    by (simp add: empties_def toy_simps)
  from solve_cmd_response [OF g(1), of toy 3 "[]"] toy_win_run
       solve_cmd_response [OF g(2), of toy 3 "[]"] toy_loss_run
       solve_cmd_response [OF g(3), of toy 3 "[]"] toy_unknown_run
       toy_board_contract e
  show ?thesis
    by (simp add: solve_response_def color_token_def toy_simps)
qed

text \<open>
  Claim C2. Outside generation mode, if any clock reading that the search takes before it
  returns is beyond the time limit (the elapsed time being the result of the subtraction
  the code performs on the reading and the start time), then the search returns with the
  flag set, no winning move recorded and the abort sentinel, and the response is
  \<^verbatim>\<open>unknown\<close>. Conversely, when the search returns with the flag set, one of its readings
  was beyond the limit, no winning move is recorded and the response is \<^verbatim>\<open>unknown\<close>. In
  particular the response is \<^verbatim>\<open>unknown\<close> when the limit is already exceeded at the first
  reading of the search. The search returns on every board implementation that keeps
  \<open>board_contract\<close>, once the depth bound exceeds the number of empty points.
\<close>

theorem solve_unknown_on_timeout:
  assumes gen: "\<not> genCall s"
  shows "(\<forall>v s' j. alphabeta ops n (search_start ops s) (- 100000) 100000 0 = Some (Inr v, s') \<and>
            Suc (clock s) \<le> j \<and> j < clock s' \<and>
            late_reading ops (process_time ops (clock s)) (timelimit s) j \<longrightarrow>
            notdone s' \<and> winMoves s' = [] \<and> v = Abort \<and>
            solve_cmd ops n args s =
              Some (Inr (), s'\<lparr>out := out s' @ [''= unknown'' @ newline @ newline]\<rparr>)) \<and>
         (\<forall>v s'. alphabeta ops n (search_start ops s) (- 100000) 100000 0 = Some (Inr v, s') \<and>
            notdone s' \<longrightarrow>
            winMoves s' = [] \<and> v = Abort \<and>
            solve_cmd ops n args s =
              Some (Inr (), s'\<lparr>out := out s' @ [''= unknown'' @ newline @ newline]\<rparr>) \<and>
            (\<exists>j. Suc (clock s) \<le> j \<and> j < clock s' \<and>
                 late_reading ops (process_time ops (clock s)) (timelimit s) j)) \<and>
         (float_sub ops (process_time ops (Suc (clock s))) (process_time ops (clock s))
              > real_of_int (timelimit s) \<longrightarrow>
            solve_cmd ops (Suc n) args s =
              Some (Inr (), (search_start ops s)\<lparr>clock := Suc (Suc (clock s)), notdone := True,
                 out := out s @ [''= unknown'' @ newline @ newline]\<rparr>)) \<and>
         (board_contract ops \<and> empties (board (gboard s)) < n \<longrightarrow>
            (\<exists>v s'. alphabeta ops n (search_start ops s) (- 100000) 100000 0 = Some (Inr v, s')))"
proof -
  let ?s0 = "search_start ops s"
  have st: "\<not> notdone ?s0" "winMoves ?s0 = []" "clock ?s0 = Suc (clock s)"
    "starttime ?s0 = process_time ops (clock s)" "timelimit ?s0 = timelimit s"
    by (simp_all add: search_start_def)
  have flagged: "winMoves s' = [] \<and> v = Abort \<and>
      solve_cmd ops n args s =
        Some (Inr (), s'\<lparr>out := out s' @ [''= unknown'' @ newline @ newline]\<rparr>)"
    if run: "alphabeta ops n ?s0 (- 100000) 100000 0 = Some (Inr v, s')" and nd: "notdone s'"
    for v s'
  proof -
    from alphabeta_flags [OF run] nd st(2)
    have w: "winMoves s' = []" and v: "v = Abort"
      by (auto intro: ab_value.exhaust [of v])
    from alphabeta_frame [OF run] gen have g: "\<not> genCall s'"
      by (simp add: search_start_def)
    have "solve_cmd ops n args s =
        Some (Inr (), s'\<lparr>out := out s' @ [''= unknown'' @ newline @ newline]\<rparr>)"
      unfolding solve_cmd_search run using g w nd by (simp add: respond_def)
    with w v show ?thesis by simp
  qed
  show ?thesis
  proof (intro conjI allI impI)
    fix v s' j
    assume a: "alphabeta ops n ?s0 (- 100000) 100000 0 = Some (Inr v, s') \<and>
            Suc (clock s) \<le> j \<and> j < clock s' \<and>
            late_reading ops (process_time ops (clock s)) (timelimit s) j"
    then have run: "alphabeta ops n ?s0 (- 100000) 100000 0 = Some (Inr v, s')"
      and j: "clock ?s0 \<le> j" "j < clock s'"
        "late_reading ops (starttime ?s0) (timelimit ?s0) j"
      unfolding st by simp_all
    show nd: "notdone s'"
      by (rule alphabeta_late_sets_flag [OF run st(2) j])
    from flagged [OF run nd]
    show "winMoves s' = []" and "v = Abort" and "solve_cmd ops n args s =
        Some (Inr (), s'\<lparr>out := out s' @ [''= unknown'' @ newline @ newline]\<rparr>)"
      by simp_all
  next
    fix v s'
    assume a: "alphabeta ops n ?s0 (- 100000) 100000 0 = Some (Inr v, s') \<and> notdone s'"
    then have run: "alphabeta ops n ?s0 (- 100000) 100000 0 = Some (Inr v, s')"
      and nd: "notdone s'" by simp_all
    from flagged [OF run nd]
    show "winMoves s' = []" and "v = Abort" and "solve_cmd ops n args s =
        Some (Inr (), s'\<lparr>out := out s' @ [''= unknown'' @ newline @ newline]\<rparr>)"
      by simp_all
    from alphabeta_flag_needs_late [OF run st(1) nd]
    show "\<exists>j. Suc (clock s) \<le> j \<and> j < clock s' \<and>
                 late_reading ops (process_time ops (clock s)) (timelimit s) j"
      unfolding st .
  next
    assume late: "float_sub ops (process_time ops (Suc (clock s))) (process_time ops (clock s))
              > real_of_int (timelimit s)"
    have t: "float_sub ops (process_time ops (clock ?s0)) (starttime ?s0) > real_of_int (timelimit ?s0)"
      using late by (simp add: search_start_def)
    note run = alphabeta_timeout [OF st(1,2) t, of n "- 100000" 100000 0]
    show "solve_cmd ops (Suc n) args s =
        Some (Inr (), (search_start ops s)\<lparr>clock := Suc (Suc (clock s)), notdone := True,
                   out := out s @ [''= unknown'' @ newline @ newline]\<rparr>)"
      unfolding solve_cmd_search run using gen by (simp add: search_start_def respond_def)
  next
    assume b: "board_contract ops \<and> empties (board (gboard s)) < n"
    then have bc: "board_contract ops" and e: "empties (board (gboard (search_start ops s))) < n"
      by (simp_all add: search_start_def)
    from alphabeta_returns [OF bc e, of "- 100000" 100000 0]
    show "\<exists>v s'. alphabeta ops n (search_start ops s) (- 100000) 100000 0 = Some (Inr v, s')"
      by blast
  qed
qed

lemma toy_deep_timeout_run:
  "alphabeta toy 3 (search_start toy ((init_conn (toy_board [0, 0] 1))\<lparr>timelimit := 2\<rparr>))
      (- 100000) 100000 0 =
     Some (Inr Abort, (init_conn (toy_board [0, 0] 1))\<lparr>timelimit := 2, clock := 4,
        notdone := True\<rparr>)"
  by code_simp

lemma toy_third_reading_late: "late_reading toy (process_time toy 0) 2 3"
  by (simp add: late_reading_def toy_def)

text \<open>
  On the two-point board: with limit 2 the third reading of the search, two calls deep, is
  late; with limit 0 the first reading is.
\<close>

theorem solve_unknown_on_timeout_witness:
  "late_reading toy (process_time toy 0) 2 3 \<and>
   solve_cmd toy 3 [] ((init_conn (toy_board [0, 0] 1))\<lparr>timelimit := 2\<rparr>) =
     Some (Inr (), (init_conn (toy_board [0, 0] 1))\<lparr>timelimit := 2, clock := 4,
        notdone := True, out := [''= unknown'' @ newline @ newline]\<rparr>) \<and>
   (\<exists>j. Suc 0 \<le> j \<and> j < 4 \<and> late_reading toy (process_time toy 0) 2 j) \<and>
   solve_cmd toy 1 [] ((init_conn (toy_board [0, 0] 1))\<lparr>timelimit := 0\<rparr>) =
     Some (Inr (), (init_conn (toy_board [0, 0] 1))\<lparr>timelimit := 0, clock := 2,
        notdone := True, out := [''= unknown'' @ newline @ newline]\<rparr>) \<and>
   (\<exists>v s'. alphabeta toy 3
      (search_start toy ((init_conn (toy_board [0, 0] 1))\<lparr>timelimit := 2\<rparr>))
      (- 100000) 100000 0 = Some (Inr v, s'))"
proof -
  let ?d = "(init_conn (toy_board [0, 0] 1))\<lparr>timelimit := 2\<rparr>"
  let ?r = "(init_conn (toy_board [0, 0] 1))\<lparr>timelimit := 0\<rparr>"
  let ?e = "(init_conn (toy_board [0, 0] 1))\<lparr>timelimit := 2, clock := 4, notdone := True\<rparr>"
  have g: "\<not> genCall ?d" "\<not> genCall ?r"
    by (simp_all add: init_conn_def)
  have f: "clock ?d = 0" "timelimit ?d = 2" "clock ?e = 4" "notdone ?e" "out ?e = []"
    by (simp_all add: init_conn_def)
  have late: "float_sub toy (process_time toy (Suc (clock ?r))) (process_time toy (clock ?r))
              > real_of_int (timelimit ?r)"
    by (simp add: toy_def init_conn_def)
  have e: "empties (board (gboard ?d)) < 3"
    by (simp add: empties_def toy_simps)
  note t = solve_unknown_on_timeout [OF g(1), where ops = toy and n = 3 and args = "[]"]
  note t0 = solve_unknown_on_timeout [OF g(2), where ops = toy and n = 0 and args = "[]"]
  have p: "Suc (clock ?d) \<le> 3" "3 < clock ?e"
    "late_reading toy (process_time toy (clock ?d)) (timelimit ?d) 3"
    by (simp_all add: init_conn_def late_reading_def toy_def)
  have A: "alphabeta toy 3 (search_start toy ?d) (- 100000) 100000 0 = Some (Inr Abort, ?e) \<and>
      Suc (clock ?d) \<le> 3 \<and> 3 < clock ?e \<and>
      late_reading toy (process_time toy (clock ?d)) (timelimit ?d) 3 \<longrightarrow>
      solve_cmd toy 3 [] ?d =
        Some (Inr (), ?e\<lparr>out := out ?e @ [''= unknown'' @ newline @ newline]\<rparr>)"
    using t by blast
  have B: "alphabeta toy 3 (search_start toy ?d) (- 100000) 100000 0 = Some (Inr Abort, ?e) \<and>
      notdone ?e \<longrightarrow>
      (\<exists>j. Suc (clock ?d) \<le> j \<and> j < clock ?e \<and>
         late_reading toy (process_time toy (clock ?d)) (timelimit ?d) j)"
    using t by blast
  have a1: "solve_cmd toy 3 [] ?d =
      Some (Inr (), ?e\<lparr>out := out ?e @ [''= unknown'' @ newline @ newline]\<rparr>)"
    using A toy_deep_timeout_run p by blast
  have a2: "\<exists>j. Suc (clock ?d) \<le> j \<and> j < clock ?e \<and>
         late_reading toy (process_time toy (clock ?d)) (timelimit ?d) j"
    using B toy_deep_timeout_run f(4) by blast
  have a3: "solve_cmd toy (Suc 0) [] ?r =
      Some (Inr (), (search_start toy ?r)\<lparr>clock := Suc (Suc (clock ?r)), notdone := True,
                 out := out ?r @ [''= unknown'' @ newline @ newline]\<rparr>)"
    using t0 late by blast
  have a4: "\<exists>v s'. alphabeta toy 3 (search_start toy ?d) (- 100000) 100000 0 = Some (Inr v, s')"
    using t toy_board_contract e by blast
  from a1 a2 a3 a4 p(3) show ?thesis
    by (simp add: search_start_def init_conn_def toy_def)
qed

text \<open>
  Claim C3. On a board implementation that keeps \<open>undo_contract\<close>, every call of
  \<^verbatim>\<open>alphabeta\<close> and every run of its loop leaves the board exactly as it found it,
  whatever it returns (a value, the abort sentinel, an exception); and after each recursive
  call, whatever that call returns, the two assignments that take the move back restore
  the board the frame had before it played the move.
\<close>

theorem search_restores_board:
  assumes uc: "undo_contract ops"
  shows "(alphabeta ops n s alpha beta d = Some (r, s') \<longrightarrow> gboard s' = gboard s) \<and>
         ((\<forall>m \<in> set ms. plain_move ops (gboard s) m) \<and>
          for_moves ops n ms s alpha beta d = Some (r, s') \<longrightarrow> gboard s' = gboard s) \<and>
         (plain_move ops (gboard s) m \<and>
          move_to_coord ops m (bsize (gboard s)) = Inr (Some (row, col)) \<and>
          move ops (gboard s) (coord_to_point ops (gboard s) row col) (to_play (gboard s)) =
            (x, b1) \<and>
          alphabeta ops n (s\<lparr>gboard := b1\<rparr>) (- beta) (- alpha) (d + 1) = Some (rc, s2) \<longrightarrow>
            undo ops (coord_to_point ops (gboard s) row col) s2 = Inr (s2\<lparr>gboard := gboard s\<rparr>))"
proof (intro conjI impI)
  assume "alphabeta ops n s alpha beta d = Some (r, s')"
  then show "gboard s' = gboard s" by (rule alphabeta_board [OF uc])
next
  assume a: "(\<forall>m \<in> set ms. plain_move ops (gboard s) m) \<and>
          for_moves ops n ms s alpha beta d = Some (r, s')"
  then have pm: "\<forall>m \<in> set ms. plain_move ops (gboard s) m"
    and run: "for_moves ops n ms s alpha beta d = Some (r, s')" by simp_all
  show "gboard s' = gboard s"
    by (rule for_moves_board [of ops n, OF alphabeta_board [OF uc] run pm])
next
  assume a: "plain_move ops (gboard s) m \<and>
          move_to_coord ops m (bsize (gboard s)) = Inr (Some (row, col)) \<and>
          move ops (gboard s) (coord_to_point ops (gboard s) row col) (to_play (gboard s)) =
            (x, b1) \<and>
          alphabeta ops n (s\<lparr>gboard := b1\<rparr>) (- beta) (- alpha) (d + 1) = Some (rc, s2)"
  then have pm: "plain_move ops (gboard s) m"
    and dec: "move_to_coord ops m (bsize (gboard s)) = Inr (Some (row, col))"
    and mv: "move ops (gboard s) (coord_to_point ops (gboard s) row col) (to_play (gboard s)) =
            (x, b1)"
    and ch: "alphabeta ops n (s\<lparr>gboard := b1\<rparr>) (- beta) (- alpha) (d + 1) = Some (rc, s2)"
    by simp_all
  from alphabeta_board [OF uc ch] have "gboard s2 = b1" by simp
  from undo_after_plain_move [OF pm dec mv this]
  show "undo ops (coord_to_point ops (gboard s) row col) s2 = Inr (s2\<lparr>gboard := gboard s\<rparr>)" .
qed

text \<open>The exhaustive search of the empty two-point board.\<close>

theorem search_restores_board_witness:
  "alphabeta toy 3 (search_start toy ((init_conn (toy_board [0, 0] 1))\<lparr>timelimit := 9\<rparr>))
      (- 100000) 100000 0 =
     Some (Inr (Val (- 1)), (init_conn (toy_board [0, 0] 1))\<lparr>timelimit := 9, clock := 6\<rparr>) \<and>
   gboard ((init_conn (toy_board [0, 0] 1))\<lparr>timelimit := 9, clock := 6\<rparr>) =
     gboard (search_start toy ((init_conn (toy_board [0, 0] 1))\<lparr>timelimit := 9\<rparr>))"
  using search_restores_board [OF board_contract_undo [OF toy_board_contract],
          where n = 3 and alpha = "- 100000" and beta = 100000 and d = 0
            and s = "search_start toy ((init_conn (toy_board [0, 0] 1))\<lparr>timelimit := 9\<rparr>)"
            and r = "Inr (Val (- 1))"
            and s' = "(init_conn (toy_board [0, 0] 1))\<lparr>timelimit := 9, clock := 6\<rparr>"]
        toy_loss_run
  by simp

text \<open>
  Claim C5, as the code has it. When the move \<^verbatim>\<open>genmove\<close> settles on fails
  \<^verbatim>\<open>check_legal\<close>, the handler writes two success-framed responses,
  \<^verbatim>\<open>= Illegal move: <move>\<close> and \<^verbatim>\<open>= Error: Illegal move given by engine\<close>,
  plays nothing, and returns normally: the \<^verbatim>\<open>RuntimeError\<close> it raises is caught
  by the \<^verbatim>\<open>except Exception\<close> clause of the handler itself.
\<close>

theorem genmove_illegal_engine_move:
  assumes el: "elements_of command = ''genmove'' # a # args"
    and col: "color_to_int ops (lower a) = Inr color"
    and nw: "get_winner ops (gboard s) = None"
    and sol: "solve_cmd ops n (a # args)
                (s\<lparr>notdone := False, winMoves := [], genCall := True,
                   gboard := (gboard s)\<lparr>to_play := (if a = ''b'' then BLACK else WHITE)\<rparr>\<rparr>) =
              Some (Inr (), s4)"
    and ch: "chosen_move ops color (s4\<lparr>genCall := False\<rparr>) = (Inr mv, s5)"
    and il: "\<not> check_legal ops (gboard s5) mv color"
  shows "get_cmd ops n command s =
           Some (Inr (), s5\<lparr>out := out s5 @
             [''= Illegal move: '' @ format_point ops (point_to_coord ops (gboard s5) mv) @
                newline @ newline,
              ''= Error: Illegal move given by engine'' @ newline @ newline]\<rparr>)"
  unfolding get_cmd_genmove [OF el]
  using col nw sol ch il
  by (simp add: genmove_cmd_def getitem_def index_of_def respond_def Let_def)

lemma strict_genmove_run:
  "get_cmd strict_toy 3 ''genmove b'' (init_conn (toy_board [0, 0] 1)) =
     Some (Inr (), (init_conn (toy_board [0, 0] 1))\<lparr>notdone := True, clock := 3, draws := 1,
       out := [''= Illegal move: a1'' @ newline @ newline,
               ''= Error: Illegal move given by engine'' @ newline @ newline]\<rparr>)"
  by code_simp

text \<open>
  Claim C5 as stated fails: on a board whose legality check rejects the move,
  \<^verbatim>\<open>genmove b\<close> returns normally and no response carries the prefix \<^verbatim>\<open>?\<close>.
\<close>

theorem genmove_illegal_engine_move_counterexample:
  "check_legal strict_toy (toy_board [0, 0] 1) 0 1 = False \<and>
   get_cmd strict_toy 3 ''genmove b'' (init_conn (toy_board [0, 0] 1)) =
     Some (Inr (), (init_conn (toy_board [0, 0] 1))\<lparr>notdone := True, clock := 3, draws := 1,
       out := [''= Illegal move: a1'' @ newline @ newline,
               ''= Error: Illegal move given by engine'' @ newline @ newline]\<rparr>)"
proof -
  have "check_legal strict_toy (toy_board [0, 0] 1) 0 1 = False"
    by (simp add: strict_toy_def)
  with strict_genmove_run show ?thesis by (simp only: simp_thms)
qed

lemma toy_elements_genmove_b: "elements_of ''genmove b'' = [''genmove'', ''b'']"
  by (simp add: elements_of_def split_ws_def is_space_def is_digit_def)

text \<open>The same run, through the theorem.\<close>

theorem genmove_illegal_engine_move_witness:
  "get_cmd strict_toy 3 ''genmove b'' (init_conn (toy_board [0, 0] 1)) =
     Some (Inr (), (init_conn (toy_board [0, 0] 1))\<lparr>notdone := True, clock := 3, draws := 1,
       out := [''= Illegal move: a1'' @ newline @ newline,
               ''= Error: Illegal move given by engine'' @ newline @ newline]\<rparr>)"
proof -
  let ?s = "init_conn (toy_board [0, 0] 1)"
  let ?s4 = "(init_conn (toy_board [0, 0] 1))\<lparr>notdone := True, clock := 3, genCall := True\<rparr>"
  let ?s5 = "(init_conn (toy_board [0, 0] 1))\<lparr>notdone := True, clock := 3, draws := 1\<rparr>"
  have col: "color_to_int strict_toy (lower ''b'') = Inr 1" by code_simp
  have nw: "get_winner strict_toy (gboard ?s) = None" by code_simp
  have sol: "solve_cmd strict_toy 3 [''b'']
                (?s\<lparr>notdone := False, winMoves := [], genCall := True,
                   gboard := (gboard ?s)\<lparr>to_play := (if ''b'' = ''b'' then BLACK else WHITE)\<rparr>\<rparr>) =
              Some (Inr (), ?s4)"
    by code_simp
  have ch: "chosen_move strict_toy 1 (?s4\<lparr>genCall := False\<rparr>) = (Inr 0, ?s5)"
    by code_simp
  have il: "\<not> check_legal strict_toy (gboard ?s5) 0 1"
    by (simp add: strict_toy_def)
  from genmove_illegal_engine_move [OF toy_elements_genmove_b col nw sol ch il]
  show ?thesis
    by (simp add: strict_toy_def toy_simps)
qed

end
